theory Spec2Isabelle
  imports Complex_Main
begin

section \<open>Fuzzy C-Means (src/fcm.py): the numeric layer\<close>

text \<open>
  The program computes with mpmath's \<open>mpf\<close> numbers at 400 decimal digits (\<open>mp.dps = 400\<close>).
  An \<open>mpf\<close> value is modelled as a \<open>real\<close> and every \<open>mpf\<close> operation as the exact operation on
  the reals: rounding to 400 digits is not modelled. The one place where the source leaves
  \<open>mpf\<close> for Python's floats, the check of the column sums, is modelled with the rounding to
  doubles. Everything the source raises is a value of \<open>error\<close>, and a function that can
  raise returns \<open>error + 'a\<close> (\<open>Inl\<close> the error).
\<close>

datatype error =
    ZeroDivisionError   \<comment> \<open>mpmath's division by zero, Python's integer \<open>//\<close> by zero\<close>
  | IndexError          \<comment> \<open>numpy: index out of bounds\<close>
  | ValueError          \<comment> \<open>numpy: operands could not be broadcast together, bad reshape\<close>
  | AssertionError      \<comment> \<open>the \<open>assert\<close> of \<open>__verificar_soma_igual_a_1__\<close>\<close>
  | NotReal             \<comment> \<open>no exception of the source: the value leaves the reals (mpmath
                            goes on with a complex number); the model ends here\<close>

definition bnd :: "'e + 'a \<Rightarrow> ('a \<Rightarrow> 'e + 'b) \<Rightarrow> 'e + 'b" where
  "bnd m f = (case m of Inl e \<Rightarrow> Inl e | Inr v \<Rightarrow> f v)"

text \<open>A list comprehension whose elements can raise: the first error, in list order, wins.\<close>

fun sequence :: "(error + 'a) list \<Rightarrow> error + 'a list" where
  "sequence [] = Inr []"
| "sequence (x # xs) = bnd x (\<lambda>v. bnd (sequence xs) (\<lambda>vs. Inr (v # vs)))"

text \<open>\<open>mpmath.fdiv\<close>: division, \<open>ZeroDivisionError\<close> on a zero divisor.\<close>

definition fdiv :: "real \<Rightarrow> real \<Rightarrow> error + real" where
  "fdiv x y = (if y = 0 then Inl ZeroDivisionError else Inr (x / y))"

text \<open>
  \<open>mpmath.power x y\<close> and \<open>x ** y\<close> on \<open>mpf\<close>: an integer exponent goes through the integer
  power; a zero base with a negative exponent raises \<open>ZeroDivisionError\<close>; a fractional
  exponent of a negative base gives a complex number.
\<close>

definition mp_power :: "real \<Rightarrow> real \<Rightarrow> error + real" where
  "mp_power x y =
     (if x = 0 \<and> y < 0 then Inl ZeroDivisionError
      else if of_int \<lfloor>y\<rfloor> = y then Inr (x powi \<lfloor>y\<rfloor>)
      else if x < 0 then Inl NotReal
      else if x = 0 then Inr 0
      else Inr (x powr y))"

section \<open>numpy arrays\<close>

text \<open>
  A two-dimensional \<open>np.ndarray\<close>: its shape and its cells in row-major order. A
  one-dimensional array (a row, a column, the list a comprehension builds) is a list.
\<close>

record ndarray =
  shape0 :: nat
  shape1 :: nat
  flat :: "real list"

definition is_ndarray :: "ndarray \<Rightarrow> bool" where
  "is_ndarray m = (length (flat m) = shape0 m * shape1 m)"

definition cell :: "ndarray \<Rightarrow> nat \<Rightarrow> nat \<Rightarrow> real" where
  "cell m i j = flat m ! (i * shape1 m + j)"

definition row :: "ndarray \<Rightarrow> nat \<Rightarrow> real list" where
  "row m i = map (\<lambda>j. cell m i j) [0..<shape1 m]"

definition col :: "ndarray \<Rightarrow> nat \<Rightarrow> real list" where
  "col m j = map (\<lambda>i. cell m i j) [0..<shape0 m]"

text \<open>\<open>m[i][j]\<close> and \<open>m[i][j] = v\<close> with indices from a \<open>range\<close> (never negative).\<close>

definition getitem :: "ndarray \<Rightarrow> nat \<Rightarrow> nat \<Rightarrow> error + real" where
  "getitem m i j = (if i < shape0 m \<and> j < shape1 m then Inr (cell m i j) else Inl IndexError)"

definition setitem :: "ndarray \<Rightarrow> nat \<Rightarrow> nat \<Rightarrow> real \<Rightarrow> error + ndarray" where
  "setitem m i j v =
     (if i < shape0 m \<and> j < shape1 m
      then Inr (m\<lparr>flat := (flat m)[i * shape1 m + j := v]\<rparr>)
      else Inl IndexError)"

text \<open>\<open>np.reshape xs (a, b)\<close> of a one-dimensional array.\<close>

definition reshape :: "real list \<Rightarrow> nat \<Rightarrow> nat \<Rightarrow> error + ndarray" where
  "reshape xs a b =
     (if a * b = length xs then Inr \<lparr>shape0 = a, shape1 = b, flat = xs\<rparr> else Inl ValueError)"

text \<open>
  An elementwise operation on two one-dimensional arrays, with numpy's broadcasting: equal
  lengths, or one of them of length 1.
\<close>

definition broadcast1 :: "(real \<Rightarrow> real \<Rightarrow> real) \<Rightarrow> real list \<Rightarrow> real list \<Rightarrow> error + real list" where
  "broadcast1 f xs ys =
     (if length xs = length ys then Inr (map2 f xs ys)
      else if length xs = 1 then Inr (map (f (hd xs)) ys)
      else if length ys = 1 then Inr (map (\<lambda>x. f x (hd ys)) xs)
      else Inl ValueError)"

text \<open>The same on two-dimensional arrays: each axis broadcasts on its own.\<close>

definition broadcast2 :: "(real \<Rightarrow> real \<Rightarrow> real) \<Rightarrow> ndarray \<Rightarrow> ndarray \<Rightarrow> error + ndarray" where
  "broadcast2 f x y =
     (let a = shape0 x; b = shape1 x; c = shape0 y; d = shape1 y in
      if (a = c \<or> a = 1 \<or> c = 1) \<and> (b = d \<or> b = 1 \<or> d = 1) then
        (let r0 = (if a = 1 then c else a); r1 = (if b = 1 then d else b) in
         Inr \<lparr>shape0 = r0, shape1 = r1,
              flat = concat (map (\<lambda>i. map (\<lambda>j.
                         f (cell x (if a = 1 then 0 else i) (if b = 1 then 0 else j))
                           (cell y (if c = 1 then 0 else i) (if d = 1 then 0 else j)))
                       [0..<r1]) [0..<r0])\<rparr>)
      else Inl ValueError)"

section \<open>Distances\<close>

text \<open>
  \<open>calculate_euclidean_distance\<close>: \<open>mpf(fsum(np.subtract(x, y) ** mpf(2)))\<close>, the squared
  Euclidean distance (the power 2 is an integer power, which never raises).
\<close>

definition calculate_euclidean_distance :: "real list \<Rightarrow> real list \<Rightarrow> error + real" where
  "calculate_euclidean_distance x y =
     bnd (broadcast1 (\<lambda>a b. a - b) x y) (\<lambda>d. Inr (sum_list (map (\<lambda>t. t\<^sup>2) d)))"

text \<open>\<open>matrix_norm\<close>: \<open>sqrt(np.sum(np.subtract(x, y) ** mpf(2.0)))\<close>.\<close>

definition matrix_norm :: "ndarray \<Rightarrow> ndarray \<Rightarrow> error + real" where
  "matrix_norm x y =
     bnd (broadcast2 (\<lambda>a b. a - b) x y) (\<lambda>d. Inr (sqrt (sum_list (map (\<lambda>t. t\<^sup>2) (flat d)))))"

text \<open>
  \<open>calculate_distances\<close>: the comprehension \<open>for i in data for j in centers\<close> builds a
  one-dimensional array, reshaped to \<open>(len // centers.shape[0], centers.shape[0])\<close>.
\<close>

definition calculate_distances :: "ndarray \<Rightarrow> ndarray \<Rightarrow> error + ndarray" where
  "calculate_distances data centers =
     bnd (sequence (concat (map (\<lambda>i. map (\<lambda>j.
              calculate_euclidean_distance (row data i) (row centers j))
            [0..<shape0 centers]) [0..<shape0 data])))
       (\<lambda>distances.
          if shape0 centers = 0 then Inl ZeroDivisionError
          else reshape distances (length distances div shape0 centers) (shape0 centers))"

section \<open>The membership update\<close>

text \<open>
  \<open>float(x)\<close> of an \<open>mpf\<close>, and the result of an operation on doubles: the nearest double
  (53 significant bits), a tie going to the even one. The exponent range of a double is
  not modelled: no overflow and no subnormal numbers.
\<close>

definition round_half_even :: "real \<Rightarrow> int" where
  "round_half_even q =
     (let f = \<lfloor>q\<rfloor> in
      if q - of_int f < 1 / 2 then f
      else if 1 / 2 < q - of_int f then f + 1
      else if even f then f else f + 1)"

definition to_float :: "real \<Rightarrow> real" where
  "to_float x =
     (if x = 0 then 0
      else (let ulp = 2 powi (\<lfloor>log 2 \<bar>x\<bar>\<rfloor> - 52)
            in of_int (round_half_even (x / ulp)) * ulp))"

text \<open>
  \<open>math.isclose\<close> on two doubles, with its defaults \<open>rel_tol = 1e-09\<close> and \<open>abs_tol = 0.0\<close>:
  equal arguments are close; otherwise \<open>diff = fabs(b - a)\<close> is compared with
  \<open>fabs(rel_tol * b)\<close>, \<open>fabs(rel_tol * a)\<close> and \<open>abs_tol\<close>, every operation rounded.
\<close>

definition math_isclose :: "real \<Rightarrow> real \<Rightarrow> bool" where
  "math_isclose a b =
     (let rel_tol = to_float (1 / 10 ^ 9); abs_tol = 0 in
      a = b \<or>
      (let diff = \<bar>to_float (b - a)\<bar> in
       diff \<le> \<bar>to_float (rel_tol * b)\<bar> \<or> diff \<le> \<bar>to_float (rel_tol * a)\<bar> \<or> diff \<le> abs_tol))"

text \<open>
  \<open>isclose(x, 1.0)\<close> as the source calls it, on an \<open>mpf\<close> column sum: \<open>math.isclose\<close>
  first converts its arguments to doubles.
\<close>

definition isclose :: "real \<Rightarrow> real \<Rightarrow> bool" where
  "isclose a b = math_isclose (to_float a) (to_float b)"

text \<open>\<open>__verificar_soma_igual_a_1__\<close>: \<open>np.sum(matriz, axis=0)\<close> and the \<open>assert\<close>.\<close>

definition soma_colunas :: "ndarray \<Rightarrow> real list" where
  "soma_colunas matriz = map (\<lambda>k. sum_list (col matriz k)) [0..<shape1 matriz]"

definition verificar_soma_igual_a_1 :: "ndarray \<Rightarrow> error + unit" where
  "verificar_soma_igual_a_1 matriz =
     (if list_all (\<lambda>x. isclose x 1) (soma_colunas matriz) then Inr () else Inl AssertionError)"

text \<open>
  The sum \<open>np.sum([power(fdiv(distances[k][i], distances[k][j]), expoente) for j in
  range(n_clusters)])\<close> of one cell.
\<close>

definition soma_razao_entre_as_distancias :: "ndarray \<Rightarrow> nat \<Rightarrow> real \<Rightarrow> nat \<Rightarrow> nat \<Rightarrow> error + real" where
  "soma_razao_entre_as_distancias distances n expoente k i =
     bnd (sequence (map (\<lambda>j.
            bnd (getitem distances k i) (\<lambda>a.
            bnd (getitem distances k j) (\<lambda>b.
            bnd (fdiv a b) (\<lambda>r. mp_power r expoente))))
          [0..<n]))
       (\<lambda>rs. Inr (sum_list rs))"

text \<open>The right-hand side of \<open>u[i][k] = fdiv(mpf(1), soma_razao_entre_as_distancias)\<close>.\<close>

definition new_membership :: "ndarray \<Rightarrow> nat \<Rightarrow> real \<Rightarrow> nat \<Rightarrow> nat \<Rightarrow> error + real" where
  "new_membership distances n expoente k i =
     bnd (soma_razao_entre_as_distancias distances n expoente k i) (\<lambda>s. fdiv 1 s)"

text \<open>
  The update writes into the caller's array, so a raise leaves the entries written so far
  behind. The loops and \<open>update_membership\<close> therefore return, with an error, the array as
  it is at the raise: \<open>at_raise u m\<close> is \<open>m\<close> evaluated while the array is \<open>u\<close>.
\<close>

definition at_raise :: "ndarray \<Rightarrow> error + 'a \<Rightarrow> (error \<times> ndarray) + 'a" where
  "at_raise u m = (case m of Inl e \<Rightarrow> Inl (e, u) | Inr v \<Rightarrow> Inr v)"

text \<open>The inner loop \<open>for i in range(n_clusters)\<close>, over the indices still to visit.\<close>

fun loop_i :: "ndarray \<Rightarrow> nat \<Rightarrow> real \<Rightarrow> nat \<Rightarrow> nat list \<Rightarrow> ndarray \<Rightarrow> (error \<times> ndarray) + ndarray" where
  "loop_i distances n expoente k [] u = Inr u"
| "loop_i distances n expoente k (i # is) u =
     bnd (at_raise u (new_membership distances n expoente k i)) (\<lambda>v.
     bnd (at_raise u (setitem u i k v)) (\<lambda>u'.
     loop_i distances n expoente k is u'))"

text \<open>The outer loop \<open>for k in range(data.shape[0])\<close>.\<close>

fun loop_k :: "ndarray \<Rightarrow> nat \<Rightarrow> real \<Rightarrow> nat list \<Rightarrow> ndarray \<Rightarrow> (error \<times> ndarray) + ndarray" where
  "loop_k distances n expoente [] u = Inr u"
| "loop_k distances n expoente (k # ks) u =
     bnd (loop_i distances n expoente k [0..<n] u) (\<lambda>u'.
     loop_k distances n expoente ks u')"

text \<open>
  \<open>update_membership\<close> overwrites \<open>u\<close> in place and returns nothing: \<open>Inr\<close> is the array
  after a normal return, \<open>Inl\<close> the error raised and the array the caller is left with.
  \<open>range(n_clusters)\<close> of a negative \<open>n_clusters\<close> is empty.
\<close>

definition update_membership :: "ndarray \<Rightarrow> ndarray \<Rightarrow> ndarray \<Rightarrow> int \<Rightarrow> real \<Rightarrow> (error \<times> ndarray) + ndarray" where
  "update_membership u data distances n_clusters mu =
     bnd (at_raise u (fdiv 2 (mu - 1))) (\<lambda>expoente.
     bnd (loop_k distances (nat n_clusters) expoente [0..<shape0 data] u) (\<lambda>u'.
     bnd (at_raise u' (verificar_soma_igual_a_1 u')) (\<lambda>_. Inr u')))"

section \<open>The centroid update and the objective\<close>

text \<open>
  \<open>update_centroids\<close>: for each row \<open>i\<close> of \<open>u\<close> and each column \<open>j\<close> of \<open>data\<close> (a row of
  \<open>data.T\<close>), \<open>fdiv(np.sum((i**mu) * j), np.sum(i**mu))\<close>; the list is reshaped to
  \<open>(len // data.shape[1], data.shape[1])\<close>.
\<close>

definition pow_all :: "real list \<Rightarrow> real \<Rightarrow> error + real list" where
  "pow_all i mu = sequence (map (\<lambda>x. mp_power x mu) i)"

definition centroid_entry :: "real list \<Rightarrow> real list \<Rightarrow> real \<Rightarrow> error + real" where
  "centroid_entry i j mu =
     bnd (pow_all i mu) (\<lambda>w.
     bnd (broadcast1 (\<lambda>a b. a * b) w j) (\<lambda>p.
     bnd (pow_all i mu) (\<lambda>w'.
     fdiv (sum_list p) (sum_list w'))))"

definition update_centroids :: "ndarray \<Rightarrow> ndarray \<Rightarrow> real \<Rightarrow> error + ndarray" where
  "update_centroids u data mu =
     bnd (sequence (concat (map (\<lambda>i. map (\<lambda>j.
              centroid_entry (row u i) (col data j) mu)
            [0..<shape1 data]) [0..<shape0 u])))
       (\<lambda>C.
          if shape1 data = 0 then Inl ZeroDivisionError
          else reshape C (length C div shape1 data) (shape1 data))"

text \<open>
  \<open>mmg\<close>: the objective J, accumulated over \<open>enumerate(data)\<close> and \<open>enumerate(centers)\<close>.
\<close>

fun mmg_j :: "ndarray \<Rightarrow> ndarray \<Rightarrow> ndarray \<Rightarrow> real \<Rightarrow> nat \<Rightarrow> nat list \<Rightarrow> real \<Rightarrow> error + real" where
  "mmg_j u data centers mu i [] tot = Inr tot"
| "mmg_j u data centers mu i (j # js) tot =
     bnd (calculate_euclidean_distance (row centers j) (row data i)) (\<lambda>distance.
     bnd (getitem u j i) (\<lambda>x.
     bnd (mp_power x mu) (\<lambda>u'.
     mmg_j u data centers mu i js (tot + distance * u'))))"

fun mmg_i :: "ndarray \<Rightarrow> ndarray \<Rightarrow> ndarray \<Rightarrow> real \<Rightarrow> nat list \<Rightarrow> real \<Rightarrow> error + real" where
  "mmg_i u data centers mu [] tot = Inr tot"
| "mmg_i u data centers mu (i # is) tot =
     bnd (mmg_j u data centers mu i [0..<shape0 centers] tot) (\<lambda>tot'.
     mmg_i u data centers mu is tot')"

definition mmg :: "ndarray \<Rightarrow> ndarray \<Rightarrow> ndarray \<Rightarrow> real \<Rightarrow> error + real" where
  "mmg u data centers mu = mmg_i u data centers mu [0..<shape0 data] 0"

section \<open>The class FCM\<close>

text \<open>
  \<open>__init__\<close> stores \<open>n_clusters\<close>, \<open>mu\<close> and \<open>eps\<close> and checks nothing; \<open>fit\<close> adds \<open>data\<close>,
  \<open>u\<close> and \<open>centers\<close>.
\<close>

record FCM =
  self_n_clusters :: int
  self_mu :: real
  self_eps :: real

record FCM_fit = FCM +
  self_data :: ndarray
  self_u :: ndarray
  self_centers :: ndarray

definition init :: "int \<Rightarrow> real \<Rightarrow> real \<Rightarrow> FCM" where
  "init n_clusters mu eps = \<lparr>self_n_clusters = n_clusters, self_mu = mu, self_eps = eps\<rparr>"

text \<open>
  An exception of the update leaves \<open>fit\<close>, which catches nothing: \<open>fit\<close> and its steps
  return the error alone, without the state the object is left in.
\<close>

definition raised :: "(error \<times> ndarray) + 'a \<Rightarrow> error + 'a" where
  "raised m = (case m of Inl (e, u) \<Rightarrow> Inl e | Inr v \<Rightarrow> Inr v)"

definition update_membership_step :: "FCM_fit \<Rightarrow> error + FCM_fit" where
  "update_membership_step self =
     bnd (calculate_distances (self_data self) (self_centers self)) (\<lambda>distances.
     bnd (raised (update_membership (self_u self) (self_data self) distances
            (self_n_clusters self) (self_mu self))) (\<lambda>u'.
     Inr (self\<lparr>self_u := u'\<rparr>)))"

definition update_centroids_step :: "FCM_fit \<Rightarrow> error + FCM_fit" where
  "update_centroids_step self =
     bnd (update_centroids (self_u self) (self_data self) (self_mu self)) (\<lambda>c.
     Inr (self\<lparr>self_centers := c\<rparr>))"

definition J :: "FCM_fit \<Rightarrow> error + real" where
  "J self = mmg (self_u self) (self_data self) (self_centers self) (self_mu self)"

text \<open>
  One pass of the body of \<open>while True\<close>: the copy of \<open>u\<close>, the two updates, and the norm the
  stopping test reads. The result is the new state and whether the loop breaks.
\<close>

definition iteration :: "FCM_fit \<Rightarrow> error + (FCM_fit \<times> bool)" where
  "iteration self =
     (let u_copy = self_u self in
      bnd (update_membership_step self) (\<lambda>self1.
      bnd (update_centroids_step self1) (\<lambda>self2.
      bnd (matrix_norm u_copy (self_u self2)) (\<lambda>norm.
      Inr (self2, norm < self_eps self2)))))"

text \<open>
  The loop has no bound on its iterations: \<open>None\<close> is a run that never leaves it.
\<close>

partial_function (option) fit_loop :: "FCM_fit \<Rightarrow> (error + FCM_fit) option" where
  "fit_loop self =
     (case iteration self of
        Inl e \<Rightarrow> Some (Inl e)
      | Inr (self', stop) \<Rightarrow> if stop then Some (Inr self') else fit_loop self')"

text \<open>
  \<open>fit\<close> with the initial membership given (when the caller passes none, the source draws a
  random one first; the model starts after the draw). \<open>to_bigfloat\<close> turns the entries of
  \<open>data\<close> and \<open>u\<close> into \<open>mpf\<close> numbers, which changes nothing here. \<open>primed\<close> is the state
  after \<open>self._update_centroids()\<close>, the call before the loop.
\<close>

definition primed :: "FCM \<Rightarrow> ndarray \<Rightarrow> ndarray \<Rightarrow> error + FCM_fit" where
  "primed self data u =
     bnd (update_centroids u data (self_mu self)) (\<lambda>c.
     Inr (FCM.extend self (FCM_fit.fields data u c)))"

definition fit :: "FCM \<Rightarrow> ndarray \<Rightarrow> ndarray \<Rightarrow> (error + FCM_fit) option" where
  "fit self data u =
     (case primed self data u of
        Inl e \<Rightarrow> Some (Inl e)
      | Inr s \<Rightarrow> fit_loop s)"

section \<open>The fit loop as the specification describes it\<close>

text \<open>
  One pass as the specification words it: recompute the distance matrix from the current
  centers, update the memberships with it, then update the centroids from the new
  memberships. \<open>passes n\<close> runs n of them, and \<open>norm_after s m\<close> is the Frobenius norm
  between the membership after m passes (the snapshot) and the one after the next pass.
\<close>

definition pass :: "FCM_fit \<Rightarrow> error + FCM_fit" where
  "pass s =
     bnd (calculate_distances (self_data s) (self_centers s)) (\<lambda>d.
     bnd (raised (update_membership (self_u s) (self_data s) d (self_n_clusters s)
            (self_mu s))) (\<lambda>u'.
     bnd (update_centroids u' (self_data s) (self_mu s)) (\<lambda>c.
     Inr (s\<lparr>self_u := u', self_centers := c\<rparr>))))"

fun passes :: "nat \<Rightarrow> FCM_fit \<Rightarrow> error + FCM_fit" where
  "passes 0 s = Inr s"
| "passes (Suc n) s = bnd (pass s) (passes n)"

definition norm_after :: "FCM_fit \<Rightarrow> nat \<Rightarrow> error + real" where
  "norm_after s m =
     bnd (passes m s) (\<lambda>a. bnd (pass a) (\<lambda>b. matrix_norm (self_u a) (self_u b)))"

section \<open>Basic facts: errors, sequences, indices\<close>

lemma bnd_Inr [simp]: "bnd (Inr v) f = f v"
  by (simp add: bnd_def)

lemma bnd_Inl [simp]: "bnd (Inl e) f = Inl e"
  by (simp add: bnd_def)

lemma bnd_eq_Inr: "bnd m f = Inr r \<longleftrightarrow> (\<exists>v. m = Inr v \<and> f v = Inr r)"
  by (cases m) simp_all

lemma bnd_eq_Inl: "bnd m f = Inl e \<longleftrightarrow> m = Inl e \<or> (\<exists>v. m = Inr v \<and> f v = Inl e)"
  by (cases m) simp_all

lemma at_raise_Inr [simp]: "at_raise u (Inr v) = Inr v"
  by (simp add: at_raise_def)

lemma at_raise_Inl [simp]: "at_raise u (Inl e) = Inl (e, u)"
  by (simp add: at_raise_def)

lemma at_raise_eq_Inr [simp]: "at_raise u m = Inr v \<longleftrightarrow> m = Inr v"
  by (cases m) simp_all

lemma at_raise_eq_Inl: "at_raise u m = Inl x \<longleftrightarrow> (\<exists>e. m = Inl e \<and> x = (e, u))"
  by (cases m) auto

lemma raised_Inr [simp]: "raised (Inr v) = Inr v"
  by (simp add: raised_def)

lemma raised_Inl [simp]: "raised (Inl (e, u)) = Inl e"
  by (simp add: raised_def)

lemma raised_eq_Inr [simp]: "raised m = Inr v \<longleftrightarrow> m = Inr v"
  by (cases m) auto

lemma raised_eq_Inl: "raised m = Inl e \<longleftrightarrow> (\<exists>u. m = Inl (e, u))"
  by (cases m) auto

lemma sequence_map_Inr: "sequence (map (\<lambda>x. Inr (f x)) xs) = Inr (map f xs)"
  by (induction xs) simp_all

lemma sequence_eq_Inr:
  "sequence xs = Inr vs \<longleftrightarrow> xs = map Inr vs"
proof (induction xs arbitrary: vs)
  case Nil
  then show ?case by auto
next
  case (Cons x xs)
  show ?case
  proof (cases x)
    case (Inl e)
    then show ?thesis by (cases vs) auto
  next
    case (Inr v)
    then show ?thesis using Cons by (cases vs) (auto simp: bnd_eq_Inr)
  qed
qed

lemma sequence_eq_Inl:
  "sequence xs = Inl e \<Longrightarrow> Inl e \<in> set xs"
proof (induction xs)
  case Nil
  then show ?case by simp
next
  case (Cons x xs)
  then show ?case by (cases x) (auto simp: bnd_eq_Inl)
qed

lemma sequence_cases:
  "(\<exists>vs. sequence xs = Inr vs) \<or> (\<exists>e. sequence xs = Inl e)"
  by (cases "sequence xs") auto

lemma sequence_first_error:
  "\<forall>y\<in>set ys. \<exists>v. y = Inr v \<Longrightarrow> sequence (ys @ Inl e # zs) = Inl e"
  by (induction ys) auto

lemma index_in_range: "i < (r::nat) \<Longrightarrow> j < c \<Longrightarrow> i * c + j < r * c"
proof -
  assume a: "i < r" "j < c"
  then have "i * c + j < i * c + c" by simp
  also have "\<dots> = Suc i * c" by simp
  also have "\<dots> \<le> r * c" using a by (intro mult_le_mono1) simp
  finally show ?thesis .
qed

lemma index_inj:
  assumes "j < (c::nat)" "j' < c" "i * c + j = i' * c + j'"
  shows "i = i' \<and> j = j'"
proof -
  have "(i * c + j) div c = i" "(i * c + j) mod c = j" using assms(1) by simp_all
  moreover have "(i' * c + j') div c = i'" "(i' * c + j') mod c = j'" using assms(2) by simp_all
  ultimately show ?thesis using assms(3) by metis
qed

lemma index_decompose:
  assumes "p < r * (c::nat)"
  shows "\<exists>i j. i < r \<and> j < c \<and> p = i * c + j"
proof -
  have c: "0 < c" using assms by (cases c) simp_all
  have "p div c < r" using assms c by (simp add: less_mult_imp_div_less)
  moreover have "p mod c < c" using c by simp
  moreover have "p = (p div c) * c + p mod c" by simp
  ultimately show ?thesis by blast
qed

lemma length_concat_table:
  "length (concat (map (\<lambda>i. map (g i) [0..<c]) [0..<r])) = r * c"
  by (induction r) simp_all

lemma nth_concat_table:
  "i < r \<Longrightarrow> j < c \<Longrightarrow> concat (map (\<lambda>i. map (g i) [0..<c]) [0..<r]) ! (i * c + j) = g i j"
proof (induction r)
  case 0
  then show ?case by simp
next
  case (Suc r)
  show ?case
  proof (cases "i < r")
    case True
    then have "i * c + j < r * c" using Suc.prems by (simp add: index_in_range)
    then show ?thesis using True Suc by (simp add: nth_append length_concat_table)
  next
    case False
    then have "i = r" using Suc.prems by simp
    then show ?thesis using Suc.prems by (simp add: nth_append length_concat_table)
  qed
qed

lemma sum_list_upt: "sum_list (map f [0..<n]) = (\<Sum>d<n. f d)"
  by (simp add: interv_sum_list_conv_sum_set_nat atLeast0LessThan)

lemma map2_upt: "map2 f (map g [0..<n]) (map h [0..<n]) = map (\<lambda>d. f (g d) (h d)) [0..<n]"
  by (induction n) simp_all

lemma length_row [simp]: "length (row m i) = shape1 m"
  by (simp add: row_def)

lemma length_col [simp]: "length (col m j) = shape0 m"
  by (simp add: col_def)

lemma calculate_euclidean_distance_eq:
  assumes "shape1 x = shape1 y"
  shows "calculate_euclidean_distance (row x i) (row y j) =
           Inr (\<Sum>d<shape1 x. (cell x i d - cell y j d)\<^sup>2)"
  using assms
  by (simp add: calculate_euclidean_distance_def broadcast1_def row_def map2_upt sum_list_upt
      comp_def)

section \<open>The distance matrix\<close>

text \<open>
  Claim C8. For a data matrix of N points and a center matrix of K centers in the same space
  (K at least 1, as the number of clusters is a positive integer), \<open>calculate_distances\<close>
  returns an N-by-K matrix whose entry \<open>[i][j]\<close> is what \<open>calculate_euclidean_distance\<close>
  returns for \<open>data[i]\<close> and \<open>centers[j]\<close>, the sum over the dimensions of the squared
  differences: rows in data order, columns in center order.
\<close>

theorem calculate_distances_entries:
  assumes "0 < shape0 centers" and "shape1 centers = shape1 data"
  shows "\<exists>m. calculate_distances data centers = Inr m
           \<and> shape0 m = shape0 data \<and> shape1 m = shape0 centers \<and> is_ndarray m
           \<and> (\<forall>i<shape0 data. \<forall>j<shape0 centers.
                 Inr (cell m i j) = calculate_euclidean_distance (row data i) (row centers j)
               \<and> cell m i j = (\<Sum>d<shape1 data. (cell data i d - cell centers j d)\<^sup>2))"
proof -
  let ?g = "\<lambda>i j. \<Sum>d<shape1 data. (cell data i d - cell centers j d)\<^sup>2"
  let ?tab = "concat (map (\<lambda>i. map (?g i) [0..<shape0 centers]) [0..<shape0 data])"
  let ?m = "\<lparr>shape0 = shape0 data, shape1 = shape0 centers, flat = ?tab\<rparr>"
  have d: "calculate_euclidean_distance (row data i) (row centers j) = Inr (?g i j)" for i j
    using assms(2) by (simp add: calculate_euclidean_distance_eq)
  have "concat (map (\<lambda>i. map (\<lambda>j. calculate_euclidean_distance (row data i) (row centers j))
            [0..<shape0 centers]) [0..<shape0 data]) = map Inr ?tab"
    by (simp add: d map_concat comp_def)
  then have s: "sequence (concat (map (\<lambda>i. map (\<lambda>j.
        calculate_euclidean_distance (row data i) (row centers j))
            [0..<shape0 centers]) [0..<shape0 data])) = Inr ?tab"
    by (simp only: sequence_eq_Inr)
  have "calculate_distances data centers = Inr ?m"
    using assms(1) by (simp add: calculate_distances_def s reshape_def length_concat_table)
  moreover have "is_ndarray ?m"
    by (simp add: is_ndarray_def length_concat_table)
  moreover have "cell ?m i j = ?g i j" if "i < shape0 data" "j < shape0 centers" for i j
    using that by (simp add: cell_def nth_concat_table)
  ultimately show ?thesis
    by (intro exI[of _ ?m]) (simp add: d)
qed

text \<open>The four points of the repository's test against two centers.\<close>

theorem calculate_distances_entries_witness:
  "\<exists>m. calculate_distances
          \<lparr>shape0 = 4, shape1 = 2, flat = [1, 3, 2, 5, 4, 8, 7, 9]\<rparr>
          \<lparr>shape0 = 2, shape1 = 2, flat = [1, 2, 3, 4]\<rparr> = Inr m
      \<and> shape0 m = 4 \<and> shape1 m = 2 \<and> cell m 2 1 = 17 \<and> cell m 3 0 = 85"
proof -
  let ?D = "\<lparr>shape0 = 4, shape1 = 2, flat = [1, 3, 2, 5, 4, 8, 7, 9 :: real]\<rparr>"
  let ?C = "\<lparr>shape0 = 2, shape1 = 2, flat = [1, 2, 3, 4 :: real]\<rparr>"
  have h: "0 < shape0 ?C" "shape1 ?C = shape1 ?D" by simp_all
  from calculate_distances_entries[OF h] obtain m where
    m: "calculate_distances ?D ?C = Inr m" "shape0 m = shape0 ?D" "shape1 m = shape0 ?C"
    and e: "\<forall>i<shape0 ?D. \<forall>j<shape0 ?C.
              Inr (cell m i j) = calculate_euclidean_distance (row ?D i) (row ?C j)
            \<and> cell m i j = (\<Sum>d<shape1 ?D. (cell ?D i d - cell ?C j d)\<^sup>2)"
    by blast
  from e have "cell m 2 1 = (\<Sum>d<shape1 ?D. (cell ?D 2 d - cell ?C 1 d)\<^sup>2)"
    by simp
  then have a: "cell m 2 1 = 17"
    by (simp add: cell_def numeral_2_eq_2)
  from e have "cell m 3 0 = (\<Sum>d<shape1 ?D. (cell ?D 3 d - cell ?C 0 d)\<^sup>2)"
    by simp
  then have b: "cell m 3 0 = 85"
    by (simp add: cell_def numeral_2_eq_2)
  show ?thesis using m a b by simp
qed

section \<open>The loops of the membership update\<close>

lemma setitem_Inr:
  "setitem u i k v = Inr u' \<longleftrightarrow>
     i < shape0 u \<and> k < shape1 u \<and> u' = u\<lparr>flat := (flat u)[i * shape1 u + k := v]\<rparr>"
  by (auto simp: setitem_def)

lemma setitem_Inl:
  "setitem u i k v = Inl x \<longleftrightarrow> \<not> (i < shape0 u \<and> k < shape1 u) \<and> x = IndexError"
  by (auto simp: setitem_def)

lemma loop_i_Inr:
  assumes "loop_i d n e k is u = Inr u'" and "is_ndarray u"
  shows "shape0 u' = shape0 u \<and> shape1 u' = shape1 u \<and> is_ndarray u'
       \<and> (\<forall>i\<in>set is. i < shape0 u \<and> k < shape1 u
             \<and> new_membership d n e k i = Inr (flat u' ! (i * shape1 u + k)))
       \<and> (\<forall>p. (\<forall>i\<in>set is. p \<noteq> i * shape1 u + k) \<longrightarrow> flat u' ! p = flat u ! p)"
  using assms
proof (induction "is" arbitrary: u)
  case Nil
  then show ?case by simp
next
  case (Cons i "is")
  from Cons.prems(1) obtain v u1 where
    v: "new_membership d n e k i = Inr v" and
    s: "setitem u i k v = Inr u1" and
    r: "loop_i d n e k is u1 = Inr u'"
    by (auto simp: bnd_eq_Inr)
  from s have ik: "i < shape0 u" "k < shape1 u"
    and u1: "u1 = u\<lparr>flat := (flat u)[i * shape1 u + k := v]\<rparr>"
    by (simp_all add: setitem_Inr)
  have w1: "is_ndarray u1" using Cons.prems(2) u1 by (simp add: is_ndarray_def)
  have sh: "shape0 u1 = shape0 u" "shape1 u1 = shape1 u" using u1 by simp_all
  note ih = Cons.IH[OF r w1, unfolded sh]
  have len: "i * shape1 u + k < length (flat u)"
    using ik Cons.prems(2) by (simp add: is_ndarray_def index_in_range)
  have head: "new_membership d n e k i = Inr (flat u' ! (i * shape1 u + k))"
  proof (cases "i \<in> set is")
    case True
    then show ?thesis using ih by blast
  next
    case False
    then have "\<forall>j\<in>set is. i * shape1 u + k \<noteq> j * shape1 u + k"
      using ik by auto
    then have "flat u' ! (i * shape1 u + k) = flat u1 ! (i * shape1 u + k)"
      using ih by blast
    also have "\<dots> = v" using u1 len by simp
    finally show ?thesis using v by simp
  qed
  have rest: "flat u' ! p = flat u ! p" if "\<forall>j\<in>set (i # is). p \<noteq> j * shape1 u + k" for p
  proof -
    from that have "flat u' ! p = flat u1 ! p" using ih by simp
    also have "\<dots> = flat u ! p" using that u1 by simp
    finally show ?thesis .
  qed
  show ?case using ih head rest ik by auto
qed

lemma loop_i_total:
  assumes "k < shape1 u" and "\<forall>i\<in>set is. i < shape0 u \<and> (\<exists>v. new_membership d n e k i = Inr v)"
  shows "\<exists>u'. loop_i d n e k is u = Inr u'"
  using assms
proof (induction "is" arbitrary: u)
  case Nil
  then show ?case by simp
next
  case (Cons i "is")
  then obtain v where v: "new_membership d n e k i = Inr v" and i: "i < shape0 u" by auto
  let ?u1 = "u\<lparr>flat := (flat u)[i * shape1 u + k := v]\<rparr>"
  have s: "setitem u i k v = Inr ?u1" using i Cons.prems(1) by (simp add: setitem_def)
  have "\<exists>u'. loop_i d n e k is ?u1 = Inr u'"
    using Cons.prems by (intro Cons.IH) simp_all
  then show ?case using v s by simp
qed

lemma loop_i_error:
  assumes "shape0 u1 = shape0 u2" and "shape1 u1 = shape1 u2"
    and "loop_i d n e k is u1 = Inl (x, a)"
  shows "\<exists>b. loop_i d n e k is u2 = Inl (x, b)"
  using assms
proof (induction "is" arbitrary: u1 u2)
  case Nil
  then show ?case by simp
next
  case (Cons i "is")
  show ?case
  proof (cases "new_membership d n e k i")
    case (Inl y)
    then show ?thesis using Cons.prems by simp
  next
    case (Inr v)
    show ?thesis
    proof (cases "i < shape0 u1 \<and> k < shape1 u1")
      case False
      then show ?thesis using Cons.prems Inr by (auto simp: setitem_def)
    next
      case True
      let ?a = "u1\<lparr>flat := (flat u1)[i * shape1 u1 + k := v]\<rparr>"
      let ?b = "u2\<lparr>flat := (flat u2)[i * shape1 u2 + k := v]\<rparr>"
      have "loop_i d n e k is ?a = Inl (x, a)"
        using Cons.prems(3) Inr True by (simp add: setitem_def)
      then have "\<exists>b. loop_i d n e k is ?b = Inl (x, b)"
        using Cons.prems(1,2) by (intro Cons.IH[of ?a ?b]) simp_all
      then show ?thesis using Inr True Cons.prems(1,2) by (simp add: setitem_def)
    qed
  qed
qed

lemma loop_k_Inr:
  assumes "loop_k d n e ks u = Inr u'" and "is_ndarray u"
  shows "shape0 u' = shape0 u \<and> shape1 u' = shape1 u \<and> is_ndarray u'
       \<and> (\<forall>k\<in>set ks. \<forall>i<n. i < shape0 u \<and> k < shape1 u
             \<and> new_membership d n e k i = Inr (flat u' ! (i * shape1 u + k)))
       \<and> (\<forall>p. (\<forall>k\<in>set ks. \<forall>i<n. p \<noteq> i * shape1 u + k) \<longrightarrow> flat u' ! p = flat u ! p)"
  using assms
proof (induction ks arbitrary: u)
  case Nil
  then show ?case by simp
next
  case (Cons k ks)
  from Cons.prems(1) obtain u1 where
    a: "loop_i d n e k [0..<n] u = Inr u1" and
    r: "loop_k d n e ks u1 = Inr u'"
    by (auto simp: bnd_eq_Inr)
  note li = loop_i_Inr[OF a Cons.prems(2)]
  from li have sh: "shape0 u1 = shape0 u" "shape1 u1 = shape1 u" and w1: "is_ndarray u1"
    by simp_all
  note ih = Cons.IH[OF r w1, unfolded sh]
  have head: "new_membership d n e k i = Inr (flat u' ! (i * shape1 u + k))
              \<and> i < shape0 u \<and> k < shape1 u" if "i < n" for i
  proof -
    from li that have ik: "i < shape0 u" "k < shape1 u"
      and v: "new_membership d n e k i = Inr (flat u1 ! (i * shape1 u + k))"
      by simp_all
    show ?thesis
    proof (cases "\<exists>k'\<in>set ks. \<exists>i'<n. i * shape1 u + k = i' * shape1 u + k'")
      case True
      then obtain k' i' where k': "k' \<in> set ks" "i' < n"
        and eq: "i * shape1 u + k = i' * shape1 u + k'" by blast
      from ih k' have "k' < shape1 u" by blast
      with eq ik have "i = i' \<and> k = k'" by (intro index_inj[of k "shape1 u" k']) simp_all
      with ih k' ik show ?thesis by blast
    next
      case False
      then have "flat u' ! (i * shape1 u + k) = flat u1 ! (i * shape1 u + k)"
        using ih by blast
      then show ?thesis using v ik by simp
    qed
  qed
  have rest: "flat u' ! p = flat u ! p"
    if "\<forall>k'\<in>set (k # ks). \<forall>i<n. p \<noteq> i * shape1 u + k'" for p
  proof -
    from that have "flat u' ! p = flat u1 ! p" using ih by simp
    also have "\<dots> = flat u ! p" using that li by simp
    finally show ?thesis .
  qed
  show ?case using ih head rest sh by auto
qed

lemma loop_k_total:
  assumes "\<forall>k\<in>set ks. k < shape1 u \<and> (\<forall>i<n. i < shape0 u \<and> (\<exists>v. new_membership d n e k i = Inr v))"
    and "is_ndarray u"
  shows "\<exists>u'. loop_k d n e ks u = Inr u'"
  using assms
proof (induction ks arbitrary: u)
  case Nil
  then show ?case by simp
next
  case (Cons k ks)
  have "\<exists>u1. loop_i d n e k [0..<n] u = Inr u1"
    using Cons.prems(1) by (intro loop_i_total) simp_all
  then obtain u1 where a: "loop_i d n e k [0..<n] u = Inr u1" ..
  note li = loop_i_Inr[OF a Cons.prems(2)]
  have "\<exists>u'. loop_k d n e ks u1 = Inr u'"
    using Cons.prems(1) li by (intro Cons.IH) simp_all
  then show ?case using a by simp
qed

lemma loop_k_error:
  assumes "shape0 u1 = shape0 u2" and "shape1 u1 = shape1 u2"
    and "is_ndarray u1" and "is_ndarray u2"
    and "loop_k d n e ks u1 = Inl (x, a)"
  shows "\<exists>b. loop_k d n e ks u2 = Inl (x, b)"
  using assms
proof (induction ks arbitrary: u1 u2)
  case Nil
  then show ?case by simp
next
  case (Cons k ks)
  show ?case
  proof (cases "loop_i d n e k [0..<n] u1")
    case (Inl y)
    then have y: "y = (x, a)" using Cons.prems(5) by simp
    then have "\<exists>b. loop_i d n e k [0..<n] u2 = Inl (x, b)"
      using Inl Cons.prems(1,2) loop_i_error by blast
    then show ?thesis by auto
  next
    case (Inr a1)
    have "\<exists>b1. loop_i d n e k [0..<n] u2 = Inr b1"
    proof (cases "loop_i d n e k [0..<n] u2")
      case (Inl y)
      obtain z c where "y = (z, c)" by (cases y)
      then have "\<exists>b. loop_i d n e k [0..<n] u1 = Inl (z, b)"
        using Inl Cons.prems(1,2) loop_i_error[of u2 u1] by simp
      then show ?thesis using Inr by simp
    next
      case (Inr b1)
      then show ?thesis by blast
    qed
    then obtain b1 where b1: "loop_i d n e k [0..<n] u2 = Inr b1" ..
    note la = loop_i_Inr[OF Inr Cons.prems(3)]
    note lb = loop_i_Inr[OF b1 Cons.prems(4)]
    have "loop_k d n e ks a1 = Inl (x, a)" using Cons.prems(5) Inr by simp
    then have "\<exists>b. loop_k d n e ks b1 = Inl (x, b)"
      using la lb Cons.prems(1,2) by (intro Cons.IH[of a1 b1]) simp_all
    then show ?thesis using b1 by simp
  qed
qed

section \<open>The membership rule\<close>

lemma mp_power_pos: "0 < x \<Longrightarrow> mp_power x y = Inr (x powr y)"
proof -
  assume x: "0 < x"
  show ?thesis
  proof (cases "of_int \<lfloor>y\<rfloor> = y")
    case True
    have "x powr y = x powr of_int \<lfloor>y\<rfloor>" by (simp only: True)
    also have "\<dots> = x powi \<lfloor>y\<rfloor>" using x by (intro powr_real_of_int') simp_all
    finally show ?thesis using True x by (simp add: mp_power_def)
  next
    case False
    then show ?thesis using x by (simp add: mp_power_def)
  qed
qed

lemma mp_power_nonneg: "0 \<le> x \<Longrightarrow> 0 < y \<Longrightarrow> mp_power x y = Inr (x powr y)"
proof -
  assume x: "0 \<le> x" and y: "0 < y"
  show ?thesis
  proof (cases "x = 0")
    case True
    have "0 < \<lfloor>y\<rfloor>" if "of_int \<lfloor>y\<rfloor> = y" using that y by linarith
    then show ?thesis using True y by (auto simp: mp_power_def power_int_0_left_if)
  next
    case False
    then show ?thesis using x by (simp add: mp_power_pos)
  qed
qed

lemma mp_power_divide:
  assumes "mp_power x e = Inr px" "mp_power y e = Inr py" "mp_power (x / y) e = Inr pz"
    and "x \<noteq> 0" "y \<noteq> 0"
  shows "pz = px / py \<and> py \<noteq> 0"
proof (cases "of_int \<lfloor>e\<rfloor> = e")
  case True
  then have "px = x powi \<lfloor>e\<rfloor>" "py = y powi \<lfloor>e\<rfloor>" "pz = (x / y) powi \<lfloor>e\<rfloor>"
    using assms by (auto simp: mp_power_def split: if_splits)
  then show ?thesis using assms(4,5) by (simp add: power_int_divide_distrib)
next
  case False
  then have "0 < x" "0 < y" "px = x powr e" "py = y powr e" "pz = (x / y) powr e"
    using assms by (auto simp: mp_power_def split: if_splits)
  then show ?thesis by (simp add: powr_divide)
qed

lemma soma_Inr:
  assumes "soma_razao_entre_as_distancias d n e k i = Inr s" and "j < n"
  shows "k < shape0 d \<and> i < shape1 d \<and> j < shape1 d \<and> cell d k j \<noteq> 0
       \<and> (\<exists>p. mp_power (cell d k i / cell d k j) e = Inr p)"
proof -
  let ?F = "\<lambda>j. bnd (getitem d k i) (\<lambda>a. bnd (getitem d k j) (\<lambda>b.
              bnd (fdiv a b) (\<lambda>r. mp_power r e)))"
  from assms(1) obtain rs where "sequence (map ?F [0..<n]) = Inr rs"
    by (auto simp: soma_razao_entre_as_distancias_def bnd_eq_Inr)
  then have "map ?F [0..<n] = map Inr rs" by (simp add: sequence_eq_Inr)
  then have "map ?F [0..<n] ! j = map Inr rs ! j" by simp
  moreover have "length rs = n" using \<open>map ?F [0..<n] = map Inr rs\<close>
    by (metis length_map length_upt minus_nat.diff_0)
  ultimately have "?F j = Inr (rs ! j)" using assms(2) by simp
  then show ?thesis
    by (auto simp: bnd_eq_Inr getitem_def fdiv_def split: if_splits)
qed

lemma soma_value:
  assumes "\<forall>j<n. mp_power (cell d k i / cell d k j) e = Inr (p j)"
    and "\<forall>j<n. cell d k j \<noteq> 0" and "k < shape0 d" and "i < shape1 d" and "n \<le> shape1 d"
  shows "soma_razao_entre_as_distancias d n e k i = Inr (\<Sum>j<n. p j)"
proof -
  let ?F = "\<lambda>j. bnd (getitem d k i) (\<lambda>a. bnd (getitem d k j) (\<lambda>b.
              bnd (fdiv a b) (\<lambda>r. mp_power r e)))"
  have "?F j = Inr (p j)" if "j < n" for j
    using that assms by (simp add: getitem_def fdiv_def)
  then have "map ?F [0..<n] = map (\<lambda>j. Inr (p j)) [0..<n]" by simp
  then have "sequence (map ?F [0..<n]) = Inr (map p [0..<n])"
    by (simp only: sequence_map_Inr)
  then show ?thesis
    by (simp add: soma_razao_entre_as_distancias_def sum_list_upt)
qed

lemma new_membership_pos:
  assumes "\<forall>j<n. 0 < cell d k j" and "k < shape0 d" and "i < n" and "n \<le> shape1 d"
  shows "new_membership d n e k i = Inr (1 / (\<Sum>j<n. (cell d k i / cell d k j) powr e))"
proof -
  have "\<forall>j<n. mp_power (cell d k i / cell d k j) e = Inr ((cell d k i / cell d k j) powr e)"
    using assms(1,3) by (simp add: mp_power_pos)
  moreover have "\<forall>j<n. cell d k j \<noteq> 0" using assms(1) by fastforce
  ultimately have s: "soma_razao_entre_as_distancias d n e k i =
      Inr (\<Sum>j<n. (cell d k i / cell d k j) powr e)"
    using assms by (intro soma_value) simp_all
  have "0 < (cell d k i / cell d k j) powr e" if "j < n" for j
  proof -
    have "0 < cell d k i" "0 < cell d k j" using that assms(1,3) by simp_all
    then show ?thesis by simp
  qed
  then have "0 < (\<Sum>j<n. (cell d k i / cell d k j) powr e)"
    using assms(3) by (intro sum_pos) auto
  then show ?thesis using s by (simp add: new_membership_def fdiv_def)
qed

lemma column_sum_one:
  assumes "0 < n" and "\<forall>i<n. new_membership d n e k i = Inr (v i)"
  shows "(\<Sum>i<n. v i) = 1"
proof -
  define a where "a j = cell d k j" for j
  define pw where "pw x = (case mp_power x e of Inr p \<Rightarrow> p | Inl _ \<Rightarrow> 0)" for x
  define q where "q i = pw (a i / a 0)" for i
  define T where "T = (\<Sum>j<n. 1 / q j)"
  have S: "\<exists>s. soma_razao_entre_as_distancias d n e k i = Inr s \<and> s \<noteq> 0 \<and> v i = 1 / s"
    if "i < n" for i
    using assms(2) that by (auto simp: new_membership_def bnd_eq_Inr fdiv_def split: if_splits)
  have facts: "a j \<noteq> 0 \<and> mp_power (a i / a j) e = Inr (pw (a i / a j))
               \<and> k < shape0 d \<and> i < shape1 d"
    if "i < n" "j < n" for i j
  proof -
    from S[OF that(1)] obtain s where "soma_razao_entre_as_distancias d n e k i = Inr s"
      by blast
    from soma_Inr[OF this that(2)] show ?thesis by (auto simp: a_def pw_def)
  qed
  have quot: "pw (a i / a j) = q i / q j \<and> q j \<noteq> 0" if "i < n" "j < n" for i j
  proof -
    have nz: "a 0 \<noteq> 0" "a i \<noteq> 0" "a j \<noteq> 0" using facts assms(1) that by blast+
    have "a i / a j = (a i / a 0) / (a j / a 0)" using nz by simp
    moreover have "mp_power ((a i / a 0) / (a j / a 0)) e = Inr (pw (a i / a j))"
      using facts[OF that] calculation by simp
    moreover have "mp_power (a i / a 0) e = Inr (q i)" "mp_power (a j / a 0) e = Inr (q j)"
      using facts assms(1) that by (simp_all add: q_def)
    ultimately have m: "mp_power (a i / a 0) e = Inr (q i)" "mp_power (a j / a 0) e = Inr (q j)"
      "mp_power ((a i / a 0) / (a j / a 0)) e = Inr (pw (a i / a j))"
      by simp_all
    have "a i / a 0 \<noteq> 0" "a j / a 0 \<noteq> 0" using nz by simp_all
    from mp_power_divide[OF m this] show ?thesis .
  qed
  have soma: "soma_razao_entre_as_distancias d n e k i = Inr (q i * T)" if "i < n" for i
  proof -
    have "n \<le> shape1 d"
    proof (rule ccontr)
      assume "\<not> n \<le> shape1 d"
      then have "shape1 d < n" by simp
      from facts[OF this assms(1)] show False by simp
    qed
    then have "soma_razao_entre_as_distancias d n e k i = Inr (\<Sum>j<n. pw (a i / a j))"
      using facts that
      by (intro soma_value) (auto simp: a_def)
    moreover have "(\<Sum>j<n. pw (a i / a j)) = (\<Sum>j<n. q i * (1 / q j))"
      using quot that by (intro sum.cong) simp_all
    ultimately show ?thesis by (simp add: T_def sum_distrib_left)
  qed
  have vi: "v i = 1 / (q i * T) \<and> q i * T \<noteq> 0" if "i < n" for i
    using S[OF that] soma[OF that] by auto
  then have T0: "T \<noteq> 0" using assms(1) by fastforce
  have "(\<Sum>i<n. v i) = (\<Sum>i<n. (1 / q i) / T)"
    using vi by (intro sum.cong) simp_all
  also have "\<dots> = (\<Sum>i<n. 1 / q i) / T" by (simp only: sum_divide_distrib)
  also have "\<dots> = T / T" by (simp only: T_def)
  finally show ?thesis using T0 by simp
qed

lemma sum_list_col: "sum_list (col m k) = (\<Sum>i<shape0 m. flat m ! (i * shape1 m + k))"
  by (simp add: col_def sum_list_upt cell_def)







lemma isclose_one: "isclose 1 1"
  by (simp add: isclose_def math_isclose_def)


lemma verificar_Inr:
  "verificar_soma_igual_a_1 m = Inr () \<longleftrightarrow> (\<forall>k<shape1 m. isclose (sum_list (col m k)) 1)"
  by (auto simp: verificar_soma_igual_a_1_def soma_colunas_def list_all_iff)

lemma verificar_Inl:
  "verificar_soma_igual_a_1 m = Inl x \<longleftrightarrow>
     x = AssertionError \<and> (\<exists>k<shape1 m. \<not> isclose (sum_list (col m k)) 1)"
  by (auto simp: verificar_soma_igual_a_1_def soma_colunas_def list_all_iff)

lemma update_membership_Inr:
  "update_membership u data d nc mu = Inr u' \<longleftrightarrow>
     mu \<noteq> 1 \<and> loop_k d (nat nc) (2 / (mu - 1)) [0..<shape0 data] u = Inr u'
     \<and> verificar_soma_igual_a_1 u' = Inr ()"
  by (auto simp: update_membership_def bnd_eq_Inr fdiv_def)

lemma update_membership_Inl:
  "update_membership u data d nc mu = Inl (x, a) \<longleftrightarrow>
     (mu = 1 \<and> x = ZeroDivisionError \<and> a = u)
     \<or> (mu \<noteq> 1 \<and> loop_k d (nat nc) (2 / (mu - 1)) [0..<shape0 data] u = Inl (x, a))
     \<or> (mu \<noteq> 1 \<and> x = AssertionError
          \<and> loop_k d (nat nc) (2 / (mu - 1)) [0..<shape0 data] u = Inr a
          \<and> (\<exists>k<shape1 a. \<not> isclose (sum_list (col a k)) 1))"
  by (auto simp: update_membership_def bnd_eq_Inl at_raise_eq_Inl fdiv_def verificar_Inl)

lemma columns_one:
  assumes "loop_k d n e [0..<N] u = Inr u'" and "is_ndarray u" and "shape0 u = n"
    and "0 < n" and "k < N"
  shows "sum_list (col u' k) = 1"
proof -
  note lk = loop_k_Inr[OF assms(1,2)]
  have "\<forall>i<n. new_membership d n e k i = Inr (flat u' ! (i * shape1 u + k))"
    using lk assms(5) by simp
  from column_sum_one[OF assms(4) this] show ?thesis
    using lk assms(3) by (simp add: sum_list_col)
qed

lemma update_membership_pos:
  assumes "mu \<noteq> 1" and "0 < nc" and "is_ndarray u"
    and "shape0 u = nat nc" and "shape1 u = shape0 data"
    and "shape0 d = shape0 data" and "shape1 d = nat nc"
    and "\<forall>k<shape0 data. \<forall>j<nat nc. 0 < cell d k j"
  shows "\<exists>u'. update_membership u data d nc mu = Inr u'
           \<and> shape0 u' = nat nc \<and> shape1 u' = shape0 data
           \<and> (\<forall>i<nat nc. \<forall>k<shape0 data.
                 cell u' i k = 1 / (\<Sum>j<nat nc. (cell d k i / cell d k j) powr (2 / (mu - 1))))"
proof -
  let ?n = "nat nc" and ?N = "shape0 data" and ?e = "2 / (mu - 1)"
  have n: "0 < ?n" using assms(2) by simp
  have nm: "new_membership d ?n ?e k i
      = Inr (1 / (\<Sum>j<?n. (cell d k i / cell d k j) powr ?e))" if "k < ?N" "i < ?n" for k i
    using that assms(6,7,8) by (intro new_membership_pos) simp_all
  have "\<exists>u'. loop_k d ?n ?e [0..<?N] u = Inr u'"
    using nm assms(3,4,5) by (intro loop_k_total) auto
  then obtain u' where l: "loop_k d ?n ?e [0..<?N] u = Inr u'" ..
  note lk = loop_k_Inr[OF l assms(3)]
  have sh: "shape0 u' = ?n" "shape1 u' = ?N" using lk assms(4,5) by simp_all
  have "sum_list (col u' k) = 1" if "k < ?N" for k
    using columns_one[OF l assms(3,4) n that] .
  then have "verificar_soma_igual_a_1 u' = Inr ()"
    by (simp add: verificar_Inr sh isclose_one)
  then have r: "update_membership u data d nc mu = Inr u'"
    using l assms(1) by (simp add: update_membership_Inr)
  have "cell u' i k = 1 / (\<Sum>j<?n. (cell d k i / cell d k j) powr ?e)"
    if "i < ?n" "k < ?N" for i k
  proof -
    have "new_membership d ?n ?e k i = Inr (flat u' ! (i * shape1 u + k))"
      using lk that by simp
    then show ?thesis using nm[OF that(2,1)] lk by (simp add: cell_def)
  qed
  then show ?thesis using r sh by blast
qed

lemma length_sequence: "sequence xs = Inr vs \<Longrightarrow> length vs = length xs"
  by (simp add: sequence_eq_Inr)

lemma calculate_distances_unfold:
  "calculate_distances data centers =
     bnd (sequence (concat (map (\<lambda>i. map (\<lambda>j.
              calculate_euclidean_distance (row data i) (row centers j))
            [0..<shape0 centers]) [0..<shape0 data])))
       (\<lambda>distances.
          if shape0 centers = 0 then Inl ZeroDivisionError
          else Inr \<lparr>shape0 = shape0 data, shape1 = shape0 centers, flat = distances\<rparr>)"
proof (cases "sequence (concat (map (\<lambda>i. map (\<lambda>j.
              calculate_euclidean_distance (row data i) (row centers j))
            [0..<shape0 centers]) [0..<shape0 data]))")
  case (Inl e)
  then show ?thesis by (simp add: calculate_distances_def)
next
  case (Inr ds)
  from length_sequence[OF Inr] have "length ds = shape0 data * shape0 centers"
    by (simp add: length_concat_table)
  then show ?thesis using Inr by (simp add: calculate_distances_def reshape_def)
qed

lemma update_centroids_unfold:
  "update_centroids u data mu =
     bnd (sequence (concat (map (\<lambda>i. map (\<lambda>j.
              centroid_entry (row u i) (col data j) mu)
            [0..<shape1 data]) [0..<shape0 u])))
       (\<lambda>C.
          if shape1 data = 0 then Inl ZeroDivisionError
          else Inr \<lparr>shape0 = shape0 u, shape1 = shape1 data, flat = C\<rparr>)"
proof (cases "sequence (concat (map (\<lambda>i. map (\<lambda>j.
              centroid_entry (row u i) (col data j) mu)
            [0..<shape1 data]) [0..<shape0 u]))")
  case (Inl e)
  then show ?thesis by (simp add: update_centroids_def)
next
  case (Inr C)
  from length_sequence[OF Inr] have "length C = shape0 u * shape1 data"
    by (simp add: length_concat_table)
  then show ?thesis using Inr by (simp add: update_centroids_def reshape_def)
qed

lemma mp_power_neg_numeral:
  "mp_power x (- numeral n) = Inr (1 / x ^ numeral n)" if "x \<noteq> 0"
proof -
  have f: "of_int \<lfloor>- numeral n :: real\<rfloor> = (- numeral n :: real)" by simp
  have "mp_power x (- numeral n) = Inr (x powi \<lfloor>- numeral n :: real\<rfloor>)"
    unfolding mp_power_def using that by (simp only: f) simp
  then show ?thesis by (simp add: power_int_minus field_simps)
qed

lemmas fcm_eval = pass_def calculate_distances_unfold calculate_euclidean_distance_def
  broadcast1_def row_def col_def cell_def update_membership_def fdiv_def
  new_membership_def soma_razao_entre_as_distancias_def getitem_def setitem_def mp_power_def
  verificar_soma_igual_a_1_def soma_colunas_def isclose_one update_centroids_unfold
  centroid_entry_def pow_all_def eval_nat_numeral

text \<open>
  Claim C1. Let the fuzziness be greater than 1 and let the distance matrix (one row per
  point, one column per center) have only positive entries; a distance is never negative,
  so a nonzero one is positive. Then the membership update returns normally, and for every
  cluster \<open>i\<close> and point \<open>k\<close> the new membership \<open>u[i][k]\<close> is
  \<open>1 / sum over j of (d[k][i] / d[k][j]) ^ (2 / (mu - 1))\<close>. The membership matrix has the
  shape the data model gives it, clusters by points, and there is at least one cluster.
\<close>

theorem update_membership_rule:
  assumes "1 < mu" and "0 < n_clusters" and "is_ndarray u"
    and "shape0 u = nat n_clusters" and "shape1 u = shape0 data"
    and "shape0 distances = shape0 data" and "shape1 distances = nat n_clusters"
    and "\<forall>k<shape0 data. \<forall>j<nat n_clusters. 0 < cell distances k j"
  shows "\<exists>u'. update_membership u data distances n_clusters mu = Inr u'
           \<and> shape0 u' = nat n_clusters \<and> shape1 u' = shape0 data
           \<and> (\<forall>i<nat n_clusters. \<forall>k<shape0 data.
                 cell u' i k = 1 / (\<Sum>j<nat n_clusters.
                     (cell distances k i / cell distances k j) powr (2 / (mu - 1))))"
  using assms by (intro update_membership_pos) simp_all

theorem update_membership_rule_witness:
  "\<exists>u'. update_membership \<lparr>shape0 = 2, shape1 = 2, flat = [0, 0, 0, 0]\<rparr>
            \<lparr>shape0 = 2, shape1 = 1, flat = [5, 6]\<rparr>
            \<lparr>shape0 = 2, shape1 = 2, flat = [1, 2, 3, 1]\<rparr> 2 2 = Inr u'
      \<and> cell u' 0 0 = 4 / 5 \<and> cell u' 1 0 = 1 / 5 \<and> cell u' 0 1 = 1 / 10 \<and> cell u' 1 1 = 9 / 10"
proof -
  let ?u = "\<lparr>shape0 = 2, shape1 = 2, flat = [0, 0, 0, 0 :: real]\<rparr>"
  let ?data = "\<lparr>shape0 = 2, shape1 = 1, flat = [5, 6 :: real]\<rparr>"
  let ?d = "\<lparr>shape0 = 2, shape1 = 2, flat = [1, 2, 3, 1 :: real]\<rparr>"
  have pos: "\<forall>k<shape0 ?data. \<forall>j<nat 2. 0 < cell ?d k j"
    by (simp add: cell_def less_Suc_eq numeral_2_eq_2)
  have "\<exists>u'. update_membership ?u ?data ?d 2 2 = Inr u'
           \<and> shape0 u' = nat 2 \<and> shape1 u' = shape0 ?data
           \<and> (\<forall>i<nat 2. \<forall>k<shape0 ?data.
                 cell u' i k = 1 / (\<Sum>j<nat 2. (cell ?d k i / cell ?d k j) powr (2 / (2 - 1))))"
    using pos by (intro update_membership_rule) (simp_all add: is_ndarray_def)
  then obtain u' where r: "update_membership ?u ?data ?d 2 2 = Inr u'"
    and f: "\<forall>i<2. \<forall>k<2. cell u' i k = 1 / (\<Sum>j<2. (cell ?d k i / cell ?d k j) powr 2)"
    by auto
  have c: "cell u' i k = 1 / (\<Sum>j<2. (cell ?d k i / cell ?d k j) powr 2)"
    if "i < 2" "k < 2" for i k
    using f that by blast
  have "cell u' 0 0 = 4 / 5" "cell u' 1 0 = 1 / 5" "cell u' 0 1 = 1 / 10" "cell u' 1 1 = 9 / 10"
    by (subst c, simp, simp, simp add: cell_def numeral_2_eq_2)+
  then show ?thesis using r by blast
qed







text \<open>
  Claim C10, as the code has it. Take two membership updates with the same distance
  matrix, the same number of clusters and the same fuzziness, whatever the previous
  memberships (of the shape clusters by points) and the data values (with the same number
  of rows). One returns normally exactly when the other does, and then with the same
  matrix: every entry is overwritten by a value that depends on the distances, the
  cluster count and the fuzziness alone. One raises exactly when the other does, and then
  the same error; the arrays they leave behind keep the previous memberships that were
  not yet overwritten, so these can differ.
\<close>

theorem update_membership_depends_on_distances_only:
  assumes "is_ndarray u1" and "is_ndarray u2"
    and "shape0 u1 = nat n_clusters" and "shape0 u2 = nat n_clusters"
    and "shape1 u1 = shape0 data1" and "shape1 u2 = shape0 data2"
    and "shape0 data1 = shape0 data2"
  shows "(\<forall>u'. update_membership u1 data1 distances n_clusters mu = Inr u'
            \<longleftrightarrow> update_membership u2 data2 distances n_clusters mu = Inr u')
       \<and> (\<forall>e. (\<exists>a. update_membership u1 data1 distances n_clusters mu = Inl (e, a))
            \<longleftrightarrow> (\<exists>b. update_membership u2 data2 distances n_clusters mu = Inl (e, b)))"
proof (cases "mu = 1")
  case True
  then show ?thesis by (simp add: update_membership_Inr update_membership_Inl)
next
  case False
  let ?n = "nat n_clusters" and ?N = "shape0 data1" and ?e = "2 / (mu - 1)"
  let ?L1 = "loop_k distances ?n ?e [0..<?N] u1"
  let ?L2 = "loop_k distances ?n ?e [0..<?N] u2"
  have sh: "shape0 u1 = shape0 u2" "shape1 u1 = shape1 u2" using assms by simp_all
  have same: "a = b" if a: "?L1 = Inr a" and b: "?L2 = Inr b" for a b
  proof -
    note la = loop_k_Inr[OF a assms(1)]
    note lb = loop_k_Inr[OF b assms(2)]
    have len: "length (flat a) = ?n * ?N" "length (flat b) = ?n * ?N"
      using la lb assms by (simp_all add: is_ndarray_def)
    have "flat a ! p = flat b ! p" if "p < ?n * ?N" for p
    proof -
      from index_decompose[OF that] obtain i k where
        ik: "i < ?n" "k < ?N" "p = i * ?N + k" by blast
      have "new_membership distances ?n ?e k i = Inr (flat a ! p)"
        using la ik assms(5) by simp
      moreover have "new_membership distances ?n ?e k i = Inr (flat b ! p)"
        using lb ik assms(5,6,7) by simp
      ultimately show ?thesis by simp
    qed
    then have "flat a = flat b" using len by (intro nth_equalityI) simp_all
    moreover have "shape0 a = shape0 b" "shape1 a = shape1 b" using la lb sh by simp_all
    ultimately show ?thesis by simp
  qed
  have cases12: "(\<exists>a. ?L1 = Inr a \<and> ?L2 = Inr a)
      \<or> (\<exists>x a b. ?L1 = Inl (x, a) \<and> ?L2 = Inl (x, b))"
  proof (cases ?L1)
    case (Inl y)
    obtain x a where y: "y = (x, a)" by (cases y)
    then obtain b where "?L2 = Inl (x, b)"
      using loop_k_error[OF sh assms(1,2)] Inl by blast
    then show ?thesis using Inl y by simp
  next
    case a: (Inr a)
    show ?thesis
    proof (cases ?L2)
      case (Inl y)
      obtain x b where y: "y = (x, b)" by (cases y)
      then obtain c where "?L1 = Inl (x, c)"
        using loop_k_error[OF sh[symmetric] assms(2,1)] Inl by blast
      then show ?thesis using a by simp
    next
      case b: (Inr b)
      from same[OF a b] show ?thesis using a b by simp
    qed
  qed
  have N: "shape0 data2 = ?N" using assms(7) by simp
  show ?thesis
    using cases12 False
    by (auto simp: update_membership_Inr update_membership_Inl N)
qed

text \<open>
  The second point lies on the second center. Both updates raise when they reach it, and
  the second column of each array still holds the previous memberships.
\<close>

theorem previous_memberships_counterexample:
  "update_membership \<lparr>shape0 = 2, shape1 = 2, flat = [1 / 2, 1 / 2, 1 / 2, 1 / 2]\<rparr>
     \<lparr>shape0 = 2, shape1 = 1, flat = [5, 6]\<rparr>
     \<lparr>shape0 = 2, shape1 = 2, flat = [1, 2, 3, 0]\<rparr> 2 (3 / 2)
   = Inl (ZeroDivisionError, \<lparr>shape0 = 2, shape1 = 2, flat = [16 / 17, 1 / 2, 1 / 17, 1 / 2]\<rparr>)
   \<and> update_membership \<lparr>shape0 = 2, shape1 = 2, flat = [0, 0, 0, 0]\<rparr>
     \<lparr>shape0 = 2, shape1 = 1, flat = [5, 6]\<rparr>
     \<lparr>shape0 = 2, shape1 = 2, flat = [1, 2, 3, 0]\<rparr> 2 (3 / 2)
   = Inl (ZeroDivisionError, \<lparr>shape0 = 2, shape1 = 2, flat = [16 / 17, 0, 1 / 17, 0]\<rparr>)
   \<and> update_membership \<lparr>shape0 = 2, shape1 = 2, flat = [1 / 2, 1 / 2, 1 / 2, 1 / 2]\<rparr>
     \<lparr>shape0 = 2, shape1 = 1, flat = [5, 6]\<rparr>
     \<lparr>shape0 = 2, shape1 = 2, flat = [1, 2, 3, 0]\<rparr> 2 (3 / 2)
   \<noteq> update_membership \<lparr>shape0 = 2, shape1 = 2, flat = [0, 0, 0, 0]\<rparr>
     \<lparr>shape0 = 2, shape1 = 1, flat = [5, 6]\<rparr>
     \<lparr>shape0 = 2, shape1 = 2, flat = [1, 2, 3, 0]\<rparr> 2 (3 / 2)"
  by (simp add: fcm_eval)

theorem update_membership_depends_on_distances_only_witness:
  "update_membership \<lparr>shape0 = 2, shape1 = 2, flat = [0, 0, 0, 0]\<rparr>
     \<lparr>shape0 = 2, shape1 = 1, flat = [5, 6]\<rparr>
     \<lparr>shape0 = 2, shape1 = 2, flat = [1, 2, 3, 1]\<rparr> 2 2
   = Inr \<lparr>shape0 = 2, shape1 = 2, flat = [4 / 5, 1 / 10, 1 / 5, 9 / 10]\<rparr>
   \<and> update_membership \<lparr>shape0 = 2, shape1 = 2, flat = [1 / 2, 1 / 3, 1 / 2, 2 / 3]\<rparr>
     \<lparr>shape0 = 2, shape1 = 3, flat = [9, 8, 7, 6, 5, 4]\<rparr>
     \<lparr>shape0 = 2, shape1 = 2, flat = [1, 2, 3, 1]\<rparr> 2 2
   = Inr \<lparr>shape0 = 2, shape1 = 2, flat = [4 / 5, 1 / 10, 1 / 5, 9 / 10]\<rparr>
   \<and> (\<exists>b. update_membership \<lparr>shape0 = 2, shape1 = 2, flat = [1 / 2, 1 / 3, 1 / 2, 2 / 3]\<rparr>
     \<lparr>shape0 = 2, shape1 = 3, flat = [9, 8, 7, 6, 5, 4]\<rparr>
     \<lparr>shape0 = 2, shape1 = 2, flat = [0, 2, 3, 1]\<rparr> 2 2 = Inl (ZeroDivisionError, b))"
proof -
  let ?u1 = "\<lparr>shape0 = 2, shape1 = 2, flat = [0, 0, 0, 0 :: real]\<rparr>"
  let ?u2 = "\<lparr>shape0 = 2, shape1 = 2, flat = [1 / 2, 1 / 3, 1 / 2, 2 / 3 :: real]\<rparr>"
  let ?data1 = "\<lparr>shape0 = 2, shape1 = 1, flat = [5, 6 :: real]\<rparr>"
  let ?data2 = "\<lparr>shape0 = 2, shape1 = 3, flat = [9, 8, 7, 6, 5, 4 :: real]\<rparr>"
  let ?d = "\<lparr>shape0 = 2, shape1 = 2, flat = [1, 2, 3, 1 :: real]\<rparr>"
  let ?z = "\<lparr>shape0 = 2, shape1 = 2, flat = [0, 2, 3, 1 :: real]\<rparr>"
  let ?r = "\<lparr>shape0 = 2, shape1 = 2, flat = [4 / 5, 1 / 10, 1 / 5, 9 / 10 :: real]\<rparr>"
  have h: "is_ndarray ?u1" "is_ndarray ?u2" "shape0 ?u1 = nat 2" "shape0 ?u2 = nat 2"
    "shape1 ?u1 = shape0 ?data1" "shape1 ?u2 = shape0 ?data2" "shape0 ?data1 = shape0 ?data2"
    by (simp_all add: is_ndarray_def)
  have a: "update_membership ?u1 ?data1 ?d 2 2 = Inr ?r"
    by (simp add: fcm_eval)
  have z: "update_membership ?u1 ?data1 ?z 2 2 = Inl (ZeroDivisionError, ?u1)"
    by (simp add: fcm_eval)
  from update_membership_depends_on_distances_only[OF h, of ?d 2] a
  have b: "update_membership ?u2 ?data2 ?d 2 2 = Inr ?r" by blast
  from update_membership_depends_on_distances_only[OF h, of ?z 2] z
  have c: "\<exists>b. update_membership ?u2 ?data2 ?z 2 2 = Inl (ZeroDivisionError, b)" by blast
  show ?thesis using a b c by blast
qed

section \<open>A point on a center\<close>

lemma new_membership_zero:
  assumes "\<forall>j<n. 0 \<le> cell d k j" and "\<exists>j<n. cell d k j = 0"
    and "k < shape0 d" and "n \<le> shape1 d"
  shows "new_membership d n e k 0 = Inl ZeroDivisionError"
proof -
  let ?F = "\<lambda>j. bnd (getitem d k 0) (\<lambda>a. bnd (getitem d k j) (\<lambda>b.
              bnd (fdiv a b) (\<lambda>r. mp_power r e)))"
  define z where "z = (LEAST j. j < n \<and> cell d k j = 0)"
  have z: "z < n \<and> cell d k z = 0" unfolding z_def using assms(2) by (rule LeastI_ex)
  have before: "cell d k j \<noteq> 0" if "j < z" for j
    using that z not_less_Least[of j "\<lambda>j. j < n \<and> cell d k j = 0"] by (auto simp: z_def)
  have n: "0 < n" using z by simp
  have split: "[0..<n] = [0..<z] @ z # [Suc z..<n]"
    using z by (metis le0 less_imp_le_nat upt_add_eq_append upt_conv_Cons
        ordered_cancel_comm_monoid_diff_class.add_diff_inverse)
  have Fz: "?F z = Inl ZeroDivisionError"
    using z n assms(3,4) by (simp add: getitem_def fdiv_def)
  have Fb: "\<exists>v. ?F j = Inr v" if "j \<in> set [0..<z]" for j
  proof -
    from that have j: "j < z" by simp
    then have "0 < z" by simp
    then have "cell d k 0 \<noteq> 0" "0 \<le> cell d k 0" using before[of 0] assms(1) n by simp_all
    then have "0 < cell d k 0" by simp
    moreover have "cell d k j \<noteq> 0" "0 \<le> cell d k j" using before[OF j] assms(1) j z by simp_all
    then have "0 < cell d k j" by simp
    ultimately have "mp_power (cell d k 0 / cell d k j) e
        = Inr ((cell d k 0 / cell d k j) powr e)"
      by (intro mp_power_pos) simp
    then show ?thesis using j z n assms(3,4) before[OF j] by (simp add: getitem_def fdiv_def)
  qed
  have "sequence (map ?F [0..<n]) = Inl ZeroDivisionError"
    unfolding split using Fz Fb sequence_first_error[of "map ?F [0..<z]" ZeroDivisionError]
    by auto
  then show ?thesis
    by (simp add: new_membership_def soma_razao_entre_as_distancias_def)
qed

lemma loop_i_row_error:
  assumes "\<forall>j<n. 0 \<le> cell d k j" and "k < shape0 d" and "n \<le> shape1 d"
    and "n \<le> shape0 u" and "k < shape1 u"
    and "loop_i d n e k [0..<n] u = Inl (x, a)"
  shows "x = ZeroDivisionError"
proof (cases "\<exists>j<n. cell d k j = 0")
  case True
  then have n: "0 < n" by auto
  have "new_membership d n e k 0 = Inl ZeroDivisionError"
    using assms(1) True assms(2,3) by (rule new_membership_zero)
  moreover have "[0..<n] = 0 # [Suc 0..<n]" using n by (simp add: upt_conv_Cons)
  ultimately have "loop_i d n e k [0..<n] u = Inl (ZeroDivisionError, u)" by simp
  then show ?thesis using assms(6) by simp
next
  case False
  have "0 < cell d k j" if "j < n" for j
  proof -
    have "cell d k j \<noteq> 0" "0 \<le> cell d k j" using that False assms(1) by simp_all
    then show ?thesis by simp
  qed
  then have pos: "\<forall>j<n. 0 < cell d k j" by simp
  have "\<exists>v. new_membership d n e k i = Inr v" if "i < n" for i
    using new_membership_pos[OF pos assms(2) that assms(3)] by blast
  then have "\<exists>u'. loop_i d n e k [0..<n] u = Inr u'"
    using assms(4,5) by (intro loop_i_total) auto
  then show ?thesis using assms(6) by auto
qed

lemma loop_k_rows_error:
  assumes "\<forall>k\<in>set ks. k < shape0 d \<and> k < shape1 u \<and> (\<forall>j<n. 0 \<le> cell d k j)"
    and "n \<le> shape1 d" and "n \<le> shape0 u" and "is_ndarray u"
    and "loop_k d n e ks u = Inl (x, a)"
  shows "x = ZeroDivisionError"
  using assms
proof (induction ks arbitrary: u)
  case Nil
  then show ?case by simp
next
  case (Cons k ks)
  show ?case
  proof (cases "loop_i d n e k [0..<n] u")
    case (Inl y)
    then have "loop_i d n e k [0..<n] u = Inl (x, a)" using Cons.prems(5) by simp
    then show ?thesis
      using Cons.prems(1,2,3) by (intro loop_i_row_error[of n d k u e x a]) simp_all
  next
    case (Inr u1)
    note li = loop_i_Inr[OF Inr Cons.prems(4)]
    have "loop_k d n e ks u1 = Inl (x, a)" using Cons.prems(5) Inr by simp
    then show ?thesis
      using Cons.prems(1,2,3) li by (intro Cons.IH[of u1]) simp_all
  qed
qed

text \<open>
  The first point lies on the first center (distance 0): the update does not assign the
  memberships 1 and 0, it raises.
\<close>

theorem coincident_point_counterexample:
  "update_membership \<lparr>shape0 = 2, shape1 = 2, flat = [0, 0, 0, 0]\<rparr>
     \<lparr>shape0 = 2, shape1 = 1, flat = [5, 6]\<rparr>
     \<lparr>shape0 = 2, shape1 = 2, flat = [0, 2, 3, 1]\<rparr> 2 2
   = Inl (ZeroDivisionError, \<lparr>shape0 = 2, shape1 = 2, flat = [0, 0, 0, 0]\<rparr>)"
  by (simp add: fcm_eval)

text \<open>
  Claim C6, as the code has it. The update has no special case for a point that coincides
  with a center. When some distance of the (non-negative) distance matrix is exactly zero,
  the membership update raises the division error \<open>ZeroDivisionError\<close>, whatever the
  fuzziness: the zero is a divisor in the first sum of its row.
\<close>

theorem zero_distance_raises:
  assumes "is_ndarray u" and "shape0 u = nat n_clusters" and "shape1 u = shape0 data"
    and "shape0 distances = shape0 data" and "shape1 distances = nat n_clusters"
    and "\<forall>k<shape0 data. \<forall>j<nat n_clusters. 0 \<le> cell distances k j"
    and "\<exists>k<shape0 data. \<exists>j<nat n_clusters. cell distances k j = 0"
  shows "\<exists>a. update_membership u data distances n_clusters mu = Inl (ZeroDivisionError, a)"
proof (cases "mu = 1")
  case True
  then show ?thesis by (simp add: update_membership_Inl)
next
  case False
  let ?n = "nat n_clusters" and ?e = "2 / (mu - 1)"
  let ?L = "loop_k distances ?n ?e [0..<shape0 data] u"
  from assms(7) obtain k j where
    kj: "k < shape0 data" "j < ?n" "cell distances k j = 0" by blast
  have "\<exists>a. ?L = Inl (ZeroDivisionError, a)"
  proof (cases ?L)
    case (Inl y)
    obtain x a where y: "y = (x, a)" by (cases y)
    then have "x = ZeroDivisionError"
      using Inl assms(1-6) by (intro loop_k_rows_error[of _ distances u ?n ?e x a]) simp_all
    then show ?thesis using Inl y by simp
  next
    case (Inr u')
    note lk = loop_k_Inr[OF Inr assms(1)]
    have "0 < ?n" using kj(2) by simp
    then have "\<exists>v. new_membership distances ?n ?e k 0 = Inr v" using lk kj(1) by simp
    then obtain s where "soma_razao_entre_as_distancias distances ?n ?e k 0 = Inr s"
      by (auto simp: new_membership_def bnd_eq_Inr)
    from soma_Inr[OF this kj(2)] have "cell distances k j \<noteq> 0" by simp
    then show ?thesis using kj(3) by simp
  qed
  then show ?thesis using False by (auto simp: update_membership_Inl)
qed

theorem zero_distance_raises_witness:
  "\<exists>a. update_membership \<lparr>shape0 = 2, shape1 = 2, flat = [1 / 2, 1 / 2, 1 / 2, 1 / 2]\<rparr>
     \<lparr>shape0 = 2, shape1 = 1, flat = [5, 6]\<rparr>
     \<lparr>shape0 = 2, shape1 = 2, flat = [1, 2, 3, 0]\<rparr> 2 (3 / 2) = Inl (ZeroDivisionError, a)"
proof -
  let ?d = "\<lparr>shape0 = 2, shape1 = 2, flat = [1, 2, 3, 0 :: real]\<rparr>"
  let ?data = "\<lparr>shape0 = 2, shape1 = 1, flat = [5, 6 :: real]\<rparr>"
  have nn: "\<forall>k<shape0 ?data. \<forall>j<nat 2. 0 \<le> cell ?d k j"
    by (simp add: cell_def less_Suc_eq numeral_2_eq_2)
  have "cell ?d 1 1 = 0" by (simp add: cell_def)
  then have z: "\<exists>k<shape0 ?data. \<exists>j<nat 2. cell ?d k j = 0"
    by (intro exI[of _ 1] conjI) simp_all
  show ?thesis
    using nn z by (intro zero_distance_raises) (simp_all add: is_ndarray_def)
qed

section \<open>The fuzziness is not checked\<close>

lemma fit_loop_error: "iteration s = Inl e \<Longrightarrow> fit_loop s = Some (Inl e)"
  by (subst fit_loop.simps) simp

lemma iteration_mu_one: "self_mu s = 1 \<Longrightarrow> \<exists>e. iteration s = Inl e"
  by (cases "calculate_distances (self_data s) (self_centers s)")
     (simp_all add: iteration_def update_membership_step_def update_membership_def fdiv_def)

text \<open>
  A fuzziness of one half is accepted: the memberships are computed with the exponent -4.
\<close>

theorem invalid_fuzziness_counterexample:
  "update_membership \<lparr>shape0 = 2, shape1 = 2, flat = [0, 0, 0, 0]\<rparr>
     \<lparr>shape0 = 2, shape1 = 1, flat = [5, 6]\<rparr>
     \<lparr>shape0 = 2, shape1 = 2, flat = [1, 2, 3, 1]\<rparr> 2 (1 / 2)
   = Inr \<lparr>shape0 = 2, shape1 = 2, flat = [1 / 17, 81 / 82, 16 / 17, 1 / 82]\<rparr>"
  by (simp add: update_membership_def fdiv_def new_membership_def
      soma_razao_entre_as_distancias_def getitem_def setitem_def cell_def col_def
      mp_power_neg_numeral verificar_soma_igual_a_1_def soma_colunas_def isclose_one
      eval_nat_numeral)

text \<open>
  Claim C5, as the code has it. Neither \<open>__init__\<close> nor the update checks the fuzziness, and
  there is no \<open>InvalidFuzziness\<close> error. With \<open>mu = 1\<close> the membership update raises
  \<open>ZeroDivisionError\<close> when it computes the exponent \<open>2 / (mu - 1)\<close>, before any membership
  is computed (the array is left as it was), and every \<open>fit\<close> ends in an error. With
  \<open>mu < 1\<close> nothing is raised on account of the fuzziness: on positive distances the update
  returns normally, and every membership \<open>u[i][k]\<close> is
  \<open>1 / sum over j of (d[k][i] / d[k][j]) ^ (2 / (mu - 1))\<close>, with a negative exponent.
\<close>

theorem fuzziness_one_divides_by_zero:
  "update_membership u data distances n_clusters 1 = Inl (ZeroDivisionError, u)
   \<and> (\<exists>e. fit (init n_clusters 1 eps) data u = Some (Inl e))
   \<and> (mu < 1 \<and> 0 < n_clusters \<and> is_ndarray u
        \<and> shape0 u = nat n_clusters \<and> shape1 u = shape0 data
        \<and> shape0 distances = shape0 data \<and> shape1 distances = nat n_clusters
        \<and> (\<forall>k<shape0 data. \<forall>j<nat n_clusters. 0 < cell distances k j)
      \<longrightarrow> (\<exists>u'. update_membership u data distances n_clusters mu = Inr u'
             \<and> shape0 u' = nat n_clusters \<and> shape1 u' = shape0 data
             \<and> (\<forall>i<nat n_clusters. \<forall>k<shape0 data.
                   cell u' i k = 1 / (\<Sum>j<nat n_clusters.
                       (cell distances k i / cell distances k j) powr (2 / (mu - 1))))))"
proof (intro conjI impI)
  show "update_membership u data distances n_clusters 1 = Inl (ZeroDivisionError, u)"
    by (simp add: update_membership_def fdiv_def)
next
  let ?self = "init n_clusters 1 eps"
  show "\<exists>e. fit ?self data u = Some (Inl e)"
  proof (cases "primed ?self data u")
    case (Inl e)
    then show ?thesis by (simp add: fit_def)
  next
    case (Inr s)
    then have "self_mu s = 1"
      by (auto simp: primed_def bnd_eq_Inr init_def FCM.extend_def FCM_fit.fields_def)
    then obtain e where "iteration s = Inl e" using iteration_mu_one by blast
    then show ?thesis using Inr by (simp add: fit_def fit_loop_error)
  qed
next
  assume a: "mu < 1 \<and> 0 < n_clusters \<and> is_ndarray u
        \<and> shape0 u = nat n_clusters \<and> shape1 u = shape0 data
        \<and> shape0 distances = shape0 data \<and> shape1 distances = nat n_clusters
        \<and> (\<forall>k<shape0 data. \<forall>j<nat n_clusters. 0 < cell distances k j)"
  then have "mu \<noteq> 1" by simp
  from update_membership_pos[OF this, of n_clusters u data distances] a
  show "\<exists>u'. update_membership u data distances n_clusters mu = Inr u'
             \<and> shape0 u' = nat n_clusters \<and> shape1 u' = shape0 data
             \<and> (\<forall>i<nat n_clusters. \<forall>k<shape0 data.
                   cell u' i k = 1 / (\<Sum>j<nat n_clusters.
                       (cell distances k i / cell distances k j) powr (2 / (mu - 1))))"
    by blast
qed

theorem fuzziness_one_divides_by_zero_witness:
  "update_membership \<lparr>shape0 = 2, shape1 = 2, flat = [1 / 2, 1 / 2, 1 / 2, 1 / 2]\<rparr>
     \<lparr>shape0 = 2, shape1 = 1, flat = [5, 6]\<rparr>
     \<lparr>shape0 = 2, shape1 = 2, flat = [1, 2, 3, 1]\<rparr> 2 1
     = Inl (ZeroDivisionError, \<lparr>shape0 = 2, shape1 = 2, flat = [1 / 2, 1 / 2, 1 / 2, 1 / 2]\<rparr>)
   \<and> (\<exists>e. fit (init 2 1 (1 / 100)) \<lparr>shape0 = 2, shape1 = 1, flat = [5, 6]\<rparr>
              \<lparr>shape0 = 2, shape1 = 2, flat = [1 / 2, 1 / 2, 1 / 2, 1 / 2]\<rparr> = Some (Inl e))
   \<and> (\<exists>u'. update_membership \<lparr>shape0 = 2, shape1 = 2, flat = [1 / 2, 1 / 2, 1 / 2, 1 / 2]\<rparr>
     \<lparr>shape0 = 2, shape1 = 1, flat = [5, 6]\<rparr>
     \<lparr>shape0 = 2, shape1 = 2, flat = [1, 2, 3, 1]\<rparr> 2 (1 / 3) = Inr u'
       \<and> cell u' 0 0 = 1 / 9 \<and> cell u' 1 0 = 8 / 9 \<and> cell u' 0 1 = 27 / 28
       \<and> cell u' 1 1 = 1 / 28)"
proof -
  let ?u = "\<lparr>shape0 = 2, shape1 = 2, flat = [1 / 2, 1 / 2, 1 / 2, 1 / 2 :: real]\<rparr>"
  let ?data = "\<lparr>shape0 = 2, shape1 = 1, flat = [5, 6 :: real]\<rparr>"
  let ?d = "\<lparr>shape0 = 2, shape1 = 2, flat = [1, 2, 3, 1 :: real]\<rparr>"
  have h: "(1 / 3 :: real) < 1 \<and> (0::int) < 2 \<and> is_ndarray ?u
        \<and> shape0 ?u = nat 2 \<and> shape1 ?u = shape0 ?data
        \<and> shape0 ?d = shape0 ?data \<and> shape1 ?d = nat 2
        \<and> (\<forall>k<shape0 ?data. \<forall>j<nat 2. 0 < cell ?d k j)"
    by (simp add: is_ndarray_def cell_def less_Suc_eq numeral_2_eq_2)
  note t = fuzziness_one_divides_by_zero[of ?u ?data ?d 2 "1 / 100" "1 / 3"]
  from t h obtain u' where r: "update_membership ?u ?data ?d 2 (1 / 3) = Inr u'"
    and f: "\<forall>i<nat 2. \<forall>k<shape0 ?data.
        cell u' i k = 1 / (\<Sum>j<nat 2. (cell ?d k i / cell ?d k j) powr (2 / (1 / 3 - 1)))"
    by blast
  have c: "cell u' i k = 1 / (\<Sum>j<2. (cell ?d k i / cell ?d k j) powr (- 3))"
    if "i < 2" "k < 2" for i k
    using f that by simp
  have "cell u' 0 0 = 1 / 9" "cell u' 1 0 = 8 / 9" "cell u' 0 1 = 27 / 28" "cell u' 1 1 = 1 / 28"
    by (subst c, simp, simp,
        simp add: cell_def numeral_2_eq_2 powr_minus powr_numeral power_divide)+
  then show ?thesis using t r by blast
qed

section \<open>The centroid update\<close>

lemma pow_all_nonneg:
  assumes "\<forall>x\<in>set xs. 0 \<le> x" and "0 < mu"
  shows "pow_all xs mu = Inr (map (\<lambda>x. x powr mu) xs)"
proof -
  have "map (\<lambda>x. mp_power x mu) xs = map (\<lambda>x. Inr (x powr mu)) xs"
    using assms by (intro map_cong) (simp_all add: mp_power_nonneg)
  then show ?thesis by (simp only: pow_all_def sequence_map_Inr)
qed

lemma centroid_entry_eq:
  assumes "shape1 u = shape0 data" and "\<forall>k<shape1 u. 0 \<le> cell u i k" and "0 < mu"
  shows "centroid_entry (row u i) (col data j) mu =
           fdiv (\<Sum>k<shape1 u. cell u i k powr mu * cell data k j)
                (\<Sum>k<shape1 u. cell u i k powr mu)"
proof -
  have "\<forall>x\<in>set (row u i). 0 \<le> x" using assms(2) by (auto simp: row_def)
  then have p: "pow_all (row u i) mu = Inr (map (\<lambda>k. cell u i k powr mu) [0..<shape1 u])"
    using assms(3) by (simp add: pow_all_nonneg row_def comp_def)
  have c: "col data j = map (\<lambda>k. cell data k j) [0..<shape1 u]"
    using assms(1) by (simp add: col_def)
  show ?thesis
    by (simp add: centroid_entry_def p c broadcast1_def map2_upt sum_list_upt)
qed

text \<open>
  Claim C2. For a membership matrix \<open>u\<close> (K by N, entries not negative), a data matrix (N by
  D, with D at least 1) and a positive fuzziness, where no cluster has total weight zero,
  the centroid update returns a K-by-D matrix whose entry for cluster \<open>i\<close> and dimension
  \<open>d\<close> is the sum over the points \<open>k\<close> of \<open>u[i][k]^mu * data[k][d]\<close> divided by the sum
  over \<open>k\<close> of \<open>u[i][k]^mu\<close>: the weighted mean of the points.
\<close>

theorem update_centroids_weighted_mean:
  assumes "shape1 u = shape0 data" and "0 < shape1 data" and "0 < mu"
    and "\<forall>i<shape0 u. \<forall>k<shape1 u. 0 \<le> cell u i k"
    and "\<forall>i<shape0 u. (\<Sum>k<shape1 u. cell u i k powr mu) \<noteq> 0"
  shows "\<exists>C. update_centroids u data mu = Inr C
           \<and> shape0 C = shape0 u \<and> shape1 C = shape1 data \<and> is_ndarray C
           \<and> (\<forall>i<shape0 u. \<forall>d<shape1 data.
                 cell C i d = (\<Sum>k<shape0 data. cell u i k powr mu * cell data k d)
                            / (\<Sum>k<shape0 data. cell u i k powr mu))"
proof -
  let ?g = "\<lambda>i d. (\<Sum>k<shape1 u. cell u i k powr mu * cell data k d)
                   / (\<Sum>k<shape1 u. cell u i k powr mu)"
  let ?tab = "concat (map (\<lambda>i. map (?g i) [0..<shape1 data]) [0..<shape0 u])"
  let ?C = "\<lparr>shape0 = shape0 u, shape1 = shape1 data, flat = ?tab\<rparr>"
  have e: "centroid_entry (row u i) (col data j) mu = Inr (?g i j)" if "i < shape0 u" for i j
    using that assms by (simp add: centroid_entry_eq fdiv_def)
  have "map (\<lambda>i. map (\<lambda>j. centroid_entry (row u i) (col data j) mu)
            [0..<shape1 data]) [0..<shape0 u]
      = map (\<lambda>i. map (\<lambda>j. Inr (?g i j)) [0..<shape1 data]) [0..<shape0 u]"
    by (rule map_cong) (simp_all add: e)
  then have "concat (map (\<lambda>i. map (\<lambda>j. centroid_entry (row u i) (col data j) mu)
            [0..<shape1 data]) [0..<shape0 u])
      = concat (map (\<lambda>i. map (\<lambda>j. Inr (?g i j)) [0..<shape1 data]) [0..<shape0 u])"
    by (rule arg_cong)
  also have "\<dots> = map Inr ?tab"
    by (simp add: map_concat comp_def)
  finally have "concat (map (\<lambda>i. map (\<lambda>j. centroid_entry (row u i) (col data j) mu)
            [0..<shape1 data]) [0..<shape0 u]) = map Inr ?tab" .
  then have s: "sequence (concat (map (\<lambda>i. map (\<lambda>j. centroid_entry (row u i) (col data j) mu)
            [0..<shape1 data]) [0..<shape0 u])) = Inr ?tab"
    by (simp only: sequence_eq_Inr)
  have "update_centroids u data mu = Inr ?C"
    using assms(2) by (simp add: update_centroids_def s reshape_def length_concat_table)
  moreover have "is_ndarray ?C"
    by (simp add: is_ndarray_def length_concat_table)
  moreover have "cell ?C i d = ?g i d" if "i < shape0 u" "d < shape1 data" for i d
    using that by (simp add: cell_def nth_concat_table)
  ultimately show ?thesis
    using assms(1) by (intro exI[of _ ?C]) simp
qed

theorem update_centroids_weighted_mean_witness:
  "\<exists>C. update_centroids
          \<lparr>shape0 = 2, shape1 = 4, flat = [8 / 10, 7 / 10, 2 / 10, 1 / 10,
                                            2 / 10, 3 / 10, 8 / 10, 9 / 10]\<rparr>
          \<lparr>shape0 = 4, shape1 = 2, flat = [1, 3, 2, 5, 4, 8, 7, 9]\<rparr> 2 = Inr C
      \<and> shape0 C = 2 \<and> shape1 C = 2
      \<and> cell C 0 0 = 185 / 118 \<and> cell C 0 1 = 239 / 59
      \<and> cell C 1 0 = 845 / 158 \<and> cell C 1 1 = 649 / 79"
proof -
  let ?u = "\<lparr>shape0 = 2, shape1 = 4, flat = [8 / 10, 7 / 10, 2 / 10, 1 / 10,
                                            2 / 10, 3 / 10, 8 / 10, 9 / 10 :: real]\<rparr>"
  let ?data = "\<lparr>shape0 = 4, shape1 = 2, flat = [1, 3, 2, 5, 4, 8, 7, 9 :: real]\<rparr>"
  have nn: "\<forall>i<shape0 ?u. \<forall>k<shape1 ?u. 0 \<le> cell ?u i k"
    by (simp add: cell_def less_Suc_eq eval_nat_numeral)
  have nz: "\<forall>i<shape0 ?u. (\<Sum>k<shape1 ?u. cell ?u i k powr 2) \<noteq> 0"
    by (simp add: cell_def less_Suc_eq eval_nat_numeral)
  have "\<exists>C. update_centroids ?u ?data 2 = Inr C
           \<and> shape0 C = shape0 ?u \<and> shape1 C = shape1 ?data \<and> is_ndarray C
           \<and> (\<forall>i<shape0 ?u. \<forall>d<shape1 ?data.
                 cell C i d = (\<Sum>k<shape0 ?data. cell ?u i k powr 2 * cell ?data k d)
                            / (\<Sum>k<shape0 ?data. cell ?u i k powr 2))"
    using nn nz by (intro update_centroids_weighted_mean) simp_all
  then obtain C where r: "update_centroids ?u ?data 2 = Inr C"
    and sh: "shape0 C = 2" "shape1 C = 2"
    and f: "\<forall>i<2. \<forall>d<2. cell C i d = (\<Sum>k<4. cell ?u i k powr 2 * cell ?data k d)
                            / (\<Sum>k<4. cell ?u i k powr 2)"
    by auto
  have c: "cell C i d = (\<Sum>k<4. cell ?u i k powr 2 * cell ?data k d)
                            / (\<Sum>k<4. cell ?u i k powr 2)" if "i < 2" "d < 2" for i d
    using f that by blast
  have "cell C 0 0 = 185 / 118" "cell C 0 1 = 239 / 59"
    "cell C 1 0 = 845 / 158" "cell C 1 1 = 649 / 79"
    by (subst c, simp, simp, simp add: cell_def eval_nat_numeral)+
  then show ?thesis using r sh by blast
qed

text \<open>
  One cluster without any membership: the error is \<open>ZeroDivisionError\<close>.
\<close>

theorem degenerate_cluster_counterexample:
  "update_centroids \<lparr>shape0 = 1, shape1 = 2, flat = [0, 0]\<rparr>
     \<lparr>shape0 = 2, shape1 = 1, flat = [1, 2]\<rparr> 2 = Inl ZeroDivisionError"
  by code_simp

text \<open>
  Claim C7, as the code has it. There is no \<open>DegenerateCluster\<close> error. When the total
  weight \<open>sum over k of u[i][k]^mu\<close> of some cluster is zero (memberships not negative,
  fuzziness positive), the centroid update produces no matrix and no NaN: it fails with
  the \<open>ZeroDivisionError\<close> of the division.
\<close>

theorem zero_weight_raises:
  assumes "shape1 u = shape0 data" and "0 < mu"
    and "\<forall>i<shape0 u. \<forall>k<shape1 u. 0 \<le> cell u i k"
    and "\<exists>i<shape0 u. (\<Sum>k<shape1 u. cell u i k powr mu) = 0"
  shows "update_centroids u data mu = Inl ZeroDivisionError"
proof -
  let ?xs = "concat (map (\<lambda>i. map (\<lambda>j. centroid_entry (row u i) (col data j) mu)
            [0..<shape1 data]) [0..<shape0 u])"
  have only: "e = ZeroDivisionError" if "Inl e \<in> set ?xs" for e
  proof -
    from that obtain i j where "i < shape0 u"
      and "centroid_entry (row u i) (col data j) mu = Inl e" by auto
    then show ?thesis using assms(1,2,3)
      by (auto simp: centroid_entry_eq fdiv_def split: if_splits)
  qed
  show ?thesis
  proof (cases "sequence ?xs")
    case (Inl e)
    then have "e = ZeroDivisionError" using sequence_eq_Inl only by blast
    then show ?thesis using Inl by (simp add: update_centroids_def)
  next
    case (Inr C)
    show ?thesis
    proof (cases "shape1 data = 0")
      case True
      then show ?thesis using Inr by (simp add: update_centroids_def)
    next
      case False
      from assms(4) obtain i where i: "i < shape0 u"
        "(\<Sum>k<shape1 u. cell u i k powr mu) = 0" by blast
      then have "centroid_entry (row u i) (col data 0) mu = Inl ZeroDivisionError"
        using assms(1,2,3) by (simp add: centroid_entry_eq fdiv_def)
      then have "Inl ZeroDivisionError \<in> set ?xs" using i(1) False by force
      moreover have "?xs = map Inr C" using Inr by (simp only: sequence_eq_Inr)
      ultimately show ?thesis by auto
    qed
  qed
qed

theorem zero_weight_raises_witness:
  "update_centroids \<lparr>shape0 = 2, shape1 = 2, flat = [1, 0, 0, 0]\<rparr>
     \<lparr>shape0 = 2, shape1 = 1, flat = [3, 4]\<rparr> 2 = Inl ZeroDivisionError"
proof -
  let ?u = "\<lparr>shape0 = 2, shape1 = 2, flat = [1, 0, 0, 0 :: real]\<rparr>"
  let ?data = "\<lparr>shape0 = 2, shape1 = 1, flat = [3, 4 :: real]\<rparr>"
  have nn: "\<forall>i<shape0 ?u. \<forall>k<shape1 ?u. 0 \<le> cell ?u i k"
    by (simp add: cell_def less_Suc_eq numeral_2_eq_2)
  have "(\<Sum>k<shape1 ?u. cell ?u 1 k powr 2) = 0"
    by (simp add: cell_def numeral_2_eq_2)
  then have z: "\<exists>i<shape0 ?u. (\<Sum>k<shape1 ?u. cell ?u i k powr 2) = 0"
    by (intro exI[of _ 1]) simp
  show ?thesis
    using nn z by (intro zero_weight_raises) simp_all
qed

section \<open>The fit loop\<close>

lemma iteration_pass:
  "iteration s = bnd (pass s) (\<lambda>s2. bnd (matrix_norm (self_u s) (self_u s2))
                    (\<lambda>norm. Inr (s2, norm < self_eps s)))"
  by (simp add: iteration_def pass_def update_membership_step_def update_centroids_step_def
      bnd_def split: sum.splits)

lemma pass_eps: "pass s = Inr s' \<Longrightarrow> self_eps s' = self_eps s"
  by (auto simp: pass_def bnd_eq_Inr)

lemma passes_Suc_right: "passes (Suc n) s = bnd (passes n s) pass"
proof (induction n arbitrary: s)
  case 0
  then show ?case by (cases "pass s") simp_all
next
  case (Suc n)
  show ?case
  proof (cases "pass s")
    case (Inl e)
    then show ?thesis by simp
  next
    case (Inr b)
    then show ?thesis using Suc[of b] by simp
  qed
qed

lemma norm_after_0:
  "norm_after s 0 = bnd (pass s) (\<lambda>b. matrix_norm (self_u s) (self_u b))"
  by (simp add: norm_after_def)

lemma norm_after_Suc: "pass s = Inr b \<Longrightarrow> norm_after s (Suc m) = norm_after b m"
  by (simp add: norm_after_def)

lemma fit_loop_stops:
  assumes "\<forall>m<n. \<exists>v. norm_after s m = Inr v \<and> \<not> v < self_eps s"
    and "\<exists>v. norm_after s n = Inr v \<and> v < self_eps s"
    and "passes (Suc n) s = Inr r"
  shows "fit_loop s = Some (Inr r)"
  using assms
proof (induction n arbitrary: s)
  case 0
  from "0.prems"(3) have p: "pass s = Inr r" by (cases "pass s") simp_all
  with "0.prems"(2) obtain v where "matrix_norm (self_u s) (self_u r) = Inr v" "v < self_eps s"
    by (auto simp: norm_after_0)
  then have "iteration s = Inr (r, True)" using p by (simp add: iteration_pass)
  then show ?case by (subst fit_loop.simps) simp
next
  case (Suc n)
  from Suc.prems(3) obtain b where p: "pass s = Inr b" and r: "passes (Suc n) b = Inr r"
    by (cases "pass s") simp_all
  from Suc.prems(1) obtain v where "norm_after s 0 = Inr v" "\<not> v < self_eps s" by blast
  then have "iteration s = Inr (b, False)" using p by (simp add: iteration_pass norm_after_0)
  then have l: "fit_loop s = fit_loop b" by (subst fit_loop.simps) simp
  have e: "self_eps b = self_eps s" using p by (rule pass_eps)
  have "\<forall>m<n. \<exists>v. norm_after b m = Inr v \<and> \<not> v < self_eps b"
    using Suc.prems(1) p e by (metis Suc_less_eq norm_after_Suc)
  moreover have "\<exists>v. norm_after b n = Inr v \<and> v < self_eps b"
    using Suc.prems(2) p e by (simp add: norm_after_Suc)
  ultimately have "fit_loop b = Some (Inr r)" using r by (rule Suc.IH)
  then show ?case using l by simp
qed

lemma fit_loop_stopped:
  assumes "fit_loop s = Some y"
  shows "\<forall>r. y = Inr r \<longrightarrow>
           (\<exists>n. (\<forall>m<n. \<exists>v. norm_after s m = Inr v \<and> \<not> v < self_eps s)
              \<and> (\<exists>v. norm_after s n = Inr v \<and> v < self_eps s)
              \<and> passes (Suc n) s = Inr r)"
proof (rule fit_loop.raw_induct[where P = "\<lambda>s y. \<forall>r. y = Inr r \<longrightarrow>
           (\<exists>n. (\<forall>m<n. \<exists>v. norm_after s m = Inr v \<and> \<not> v < self_eps s)
              \<and> (\<exists>v. norm_after s n = Inr v \<and> v < self_eps s)
              \<and> passes (Suc n) s = Inr r)", OF _ assms], goal_cases)
  case (1 f s y)
  note ih = 1(1) and body = 1(2)
  show ?case
  proof (cases "iteration s")
    case (Inl e)
    then have "y = Inl e" using body by simp
    then show ?thesis by blast
  next
    case (Inr p)
    obtain b stop where pb: "p = (b, stop)" by (cases p)
    from Inr pb obtain v where ps: "pass s = Inr b"
      and nv: "matrix_norm (self_u s) (self_u b) = Inr v" and st: "stop = (v < self_eps s)"
      by (auto simp: iteration_pass bnd_eq_Inr)
    show ?thesis
    proof (cases stop)
      case True
      then have "y = Inr b" using body Inr pb by simp
      moreover have "\<forall>m<(0::nat). \<exists>v. norm_after s m = Inr v \<and> \<not> v < self_eps s" by simp
      moreover have "\<exists>v. norm_after s 0 = Inr v \<and> v < self_eps s"
        using ps nv st True by (simp add: norm_after_0)
      moreover have "passes (Suc 0) s = Inr b" using ps by simp
      ultimately show ?thesis by blast
    next
      case False
      then have fb: "f b = Some y" using body Inr pb by simp
      have e: "self_eps b = self_eps s" using ps by (rule pass_eps)
      show ?thesis
      proof (intro allI impI)
        fix r assume "y = Inr r"
        with ih[OF fb] obtain n where
          n: "\<forall>m<n. \<exists>v. norm_after b m = Inr v \<and> \<not> v < self_eps b"
             "\<exists>v. norm_after b n = Inr v \<and> v < self_eps b"
             "passes (Suc n) b = Inr r" by blast
        have "\<exists>v. norm_after s m = Inr v \<and> \<not> v < self_eps s" if "m < Suc n" for m
        proof (cases m)
          case 0
          then show ?thesis using ps nv st False by (simp add: norm_after_0)
        next
          case (Suc m')
          then show ?thesis using that n(1) ps e by (simp add: norm_after_Suc)
        qed
        moreover have "\<exists>v. norm_after s (Suc n) = Inr v \<and> v < self_eps s"
          using n(2) ps e by (simp add: norm_after_Suc)
        moreover have "passes (Suc (Suc n)) s = Inr r" using n(3) ps by simp
        ultimately show "\<exists>n. (\<forall>m<n. \<exists>v. norm_after s m = Inr v \<and> \<not> v < self_eps s)
              \<and> (\<exists>v. norm_after s n = Inr v \<and> v < self_eps s)
              \<and> passes (Suc n) s = Inr r" by blast
      qed
    qed
  qed
qed

text \<open>
  Claim C3. \<open>fit\<close> first runs one centroid update from the initial membership, then repeats
  the pass (snapshot of the membership, fresh distance matrix and membership update,
  centroid update). It returns a result exactly when some pass is the first one whose
  Frobenius norm between the snapshot and the new membership is below \<open>eps\<close>, and the
  result is the state after that pass.
\<close>

theorem fit_runs_until_norm_below_eps:
  "fit self data u = Some (Inr r) \<longleftrightarrow>
     (\<exists>c n. update_centroids u data (self_mu self) = Inr c
        \<and> (let s0 = \<lparr>self_n_clusters = self_n_clusters self, self_mu = self_mu self,
                       self_eps = self_eps self, self_data = data, self_u = u,
                       self_centers = c\<rparr>
           in (\<forall>m<n. \<exists>v. norm_after s0 m = Inr v \<and> \<not> v < self_eps self)
            \<and> (\<exists>v. norm_after s0 n = Inr v \<and> v < self_eps self)
            \<and> passes (Suc n) s0 = Inr r))"
proof (cases "update_centroids u data (self_mu self)")
  case (Inl e)
  then show ?thesis by (simp add: fit_def primed_def)
next
  case (Inr c)
  let ?s0 = "\<lparr>self_n_clusters = self_n_clusters self, self_mu = self_mu self,
               self_eps = self_eps self, self_data = data, self_u = u, self_centers = c\<rparr>"
  have p: "primed self data u = Inr ?s0"
    using Inr by (simp add: primed_def FCM.extend_def FCM_fit.fields_def)
  have e: "self_eps ?s0 = self_eps self" by simp
  have "fit_loop ?s0 = Some (Inr r) \<longleftrightarrow>
      (\<exists>n. (\<forall>m<n. \<exists>v. norm_after ?s0 m = Inr v \<and> \<not> v < self_eps ?s0)
          \<and> (\<exists>v. norm_after ?s0 n = Inr v \<and> v < self_eps ?s0)
          \<and> passes (Suc n) ?s0 = Inr r)"
    using fit_loop_stops[of _ ?s0 r] fit_loop_stopped[of ?s0 "Inr r"] by blast
  then show ?thesis using Inr p by (simp add: fit_def Let_def)
qed

section \<open>Evaluating a run\<close>

lemmas norm_eval = broadcast2_def cell_def Let_def eval_nat_numeral

lemmas J_eval = J_def mmg_def calculate_euclidean_distance_def broadcast1_def row_def cell_def
  getitem_def mp_power_def eval_nat_numeral

lemma norm_not_below:
  assumes "case broadcast2 (\<lambda>a b. a - b) x y of
             Inr d \<Rightarrow> e\<^sup>2 \<le> sum_list (map (\<lambda>t. t\<^sup>2) (flat d)) | Inl _ \<Rightarrow> False"
    and "0 \<le> e"
  shows "\<exists>v. matrix_norm x y = Inr v \<and> \<not> v < e"
proof (cases "broadcast2 (\<lambda>a b. a - b) x y")
  case (Inl a)
  then show ?thesis using assms by simp
next
  case (Inr d)
  then have "e\<^sup>2 \<le> sum_list (map (\<lambda>t. t\<^sup>2) (flat d))" using assms by simp
  then have "e \<le> sqrt (sum_list (map (\<lambda>t. t\<^sup>2) (flat d)))" by (rule real_le_rsqrt)
  then show ?thesis using Inr by (simp add: matrix_norm_def)
qed

lemma norm_below:
  assumes "case broadcast2 (\<lambda>a b. a - b) x y of
             Inr d \<Rightarrow> sum_list (map (\<lambda>t. t\<^sup>2) (flat d)) < e\<^sup>2 | Inl _ \<Rightarrow> False"
    and "0 < e"
  shows "\<exists>v. matrix_norm x y = Inr v \<and> v < e"
proof (cases "broadcast2 (\<lambda>a b. a - b) x y")
  case (Inl a)
  then show ?thesis using assms by simp
next
  case (Inr d)
  then have "sum_list (map (\<lambda>t. t\<^sup>2) (flat d)) < e\<^sup>2" using assms by simp
  then have "sqrt (sum_list (map (\<lambda>t. t\<^sup>2) (flat d))) < e"
    using assms(2) by (intro real_less_lsqrt) simp_all
  then show ?thesis using Inr by (simp add: matrix_norm_def)
qed

theorem fit_runs_until_norm_below_eps_witness:
  "fit (init 2 2 (1 / 100)) \<lparr>shape0 = 2, shape1 = 1, flat = [0, 1]\<rparr>
       \<lparr>shape0 = 2, shape1 = 2, flat = [3 / 4, 1 / 4, 1 / 4, 3 / 4]\<rparr>
   = Some (Inr \<lparr>self_n_clusters = 2, self_mu = 2, self_eps = 1 / 100,
        self_data = \<lparr>shape0 = 2, shape1 = 1, flat = [0, 1]\<rparr>,
        self_u = \<lparr>shape0 = 2, shape1 = 2,
           flat = [3433683820292512484657849089281 / 3433683820292512484657849089282,
                   1 / 3433683820292512484657849089282,
                   1 / 3433683820292512484657849089282,
                   3433683820292512484657849089281 / 3433683820292512484657849089282]\<rparr>,
        self_centers = \<lparr>shape0 = 2, shape1 = 1,
           flat = [1 / 11790184577738583171520872861412518665678211592275841109096962,
                   11790184577738583171520872861412518665678211592275841109096961 /
                   11790184577738583171520872861412518665678211592275841109096962]\<rparr>\<rparr>)"
proof -
  let ?data = "\<lparr>shape0 = 2, shape1 = 1, flat = [0, 1 :: real]\<rparr>"
  let ?u = "\<lparr>shape0 = 2, shape1 = 2, flat = [3 / 4, 1 / 4, 1 / 4, 3 / 4 :: real]\<rparr>"
  let ?c = "\<lparr>shape0 = 2, shape1 = 1, flat = [1 / 10, 9 / 10 :: real]\<rparr>"
  let ?s0 = "\<lparr>self_n_clusters = 2, self_mu = 2, self_eps = 1 / 100,
        self_data = ?data, self_u = ?u, self_centers = ?c\<rparr>"
  let ?s1 = "\<lparr>self_n_clusters = 2, self_mu = 2, self_eps = 1 / 100,
        self_data = ?data,
        self_u = \<lparr>shape0 = 2, shape1 = 2,
           flat = [6561 / 6562, 1 / 6562, 1 / 6562, 6561 / 6562 :: real]\<rparr>,
        self_centers = \<lparr>shape0 = 2, shape1 = 1,
           flat = [1 / 43046722, 43046721 / 43046722 :: real]\<rparr>\<rparr>"
  let ?s2 = "\<lparr>self_n_clusters = 2, self_mu = 2, self_eps = 1 / 100,
        self_data = ?data,
        self_u = \<lparr>shape0 = 2, shape1 = 2,
           flat = [3433683820292512484657849089281 / 3433683820292512484657849089282,
                   1 / 3433683820292512484657849089282,
                   1 / 3433683820292512484657849089282,
                   3433683820292512484657849089281 / 3433683820292512484657849089282 :: real]\<rparr>,
        self_centers = \<lparr>shape0 = 2, shape1 = 1,
           flat = [1 / 11790184577738583171520872861412518665678211592275841109096962,
                   11790184577738583171520872861412518665678211592275841109096961 /
                   11790184577738583171520872861412518665678211592275841109096962 :: real]\<rparr>\<rparr>"
  have c: "update_centroids ?u ?data 2 = Inr ?c" by (simp add: fcm_eval)
  have p1: "pass ?s0 = Inr ?s1" by (simp add: fcm_eval)
  have p2: "pass ?s1 = Inr ?s2" by (simp add: fcm_eval)
  have "\<exists>v. matrix_norm (self_u ?s0) (self_u ?s1) = Inr v \<and> \<not> v < 1 / 100"
    by (rule norm_not_below) (simp_all add: norm_eval)
  then have n0: "\<exists>v. norm_after ?s0 0 = Inr v \<and> \<not> v < 1 / 100"
    by (simp only: norm_after_0 p1 bnd_Inr)
  have "\<exists>v. matrix_norm (self_u ?s1) (self_u ?s2) = Inr v \<and> v < 1 / 100"
    by (rule norm_below) (simp_all add: norm_eval)
  then have "\<exists>v. norm_after ?s1 0 = Inr v \<and> v < 1 / 100"
    by (simp only: norm_after_0 p2 bnd_Inr)
  then have n1: "\<exists>v. norm_after ?s0 (Suc 0) = Inr v \<and> v < 1 / 100"
    by (simp only: norm_after_Suc[OF p1])
  have ps: "passes (Suc (Suc 0)) ?s0 = Inr ?s2" by (simp only: passes.simps p1 p2 bnd_Inr)
  have "\<exists>c n. update_centroids ?u ?data (self_mu (init 2 2 (1 / 100))) = Inr c
        \<and> (let s0 = \<lparr>self_n_clusters = self_n_clusters (init 2 2 (1 / 100)),
                       self_mu = self_mu (init 2 2 (1 / 100)),
                       self_eps = self_eps (init 2 2 (1 / 100)), self_data = ?data,
                       self_u = ?u, self_centers = c\<rparr>
           in (\<forall>m<n. \<exists>v. norm_after s0 m = Inr v \<and> \<not> v < self_eps (init 2 2 (1 / 100)))
            \<and> (\<exists>v. norm_after s0 n = Inr v \<and> v < self_eps (init 2 2 (1 / 100)))
            \<and> passes (Suc n) s0 = Inr ?s2)"
    using c n0 n1 ps
    by (intro exI[of _ ?c] exI[of _ "Suc 0"]) (simp add: init_def Let_def del: One_nat_def)
  then show ?thesis
    by (simp only: fit_runs_until_norm_below_eps)
qed

section \<open>The objective\<close>

text \<open>
  Claim C9 does not hold of the code. On four points on a line and two clusters, with
  \<open>mu = 2\<close> and \<open>eps = 0.01\<close>, the objective J is 172/175 when the loop is entered and
  larger after its first iteration, which does not stop the loop. The update raises the
  ratio of the squared distances to the exponent \<open>2 / (mu - 1)\<close>, which is the exponent for
  the distances themselves, so the new memberships do not minimise J.
\<close>

theorem objective_rises_in_first_iteration:
  "\<exists>s0 s1.
     primed (init 2 2 (1 / 100)) \<lparr>shape0 = 4, shape1 = 1, flat = [0, 1, 2, 3]\<rparr>
       \<lparr>shape0 = 2, shape1 = 4, flat = [1, 4 / 5, 1 / 5, 0, 0, 1 / 5, 4 / 5, 1]\<rparr> = Inr s0
   \<and> iteration s0 = Inr (s1, False)
   \<and> J s0 = Inr (172 / 175)
   \<and> J s1 = Inr (44871471327979493379289162540 / 45634768368773084271991047931)
   \<and> (172 / 175 :: real) < 44871471327979493379289162540 / 45634768368773084271991047931"
proof -
  let ?data = "\<lparr>shape0 = 4, shape1 = 1, flat = [0, 1, 2, 3 :: real]\<rparr>"
  let ?u = "\<lparr>shape0 = 2, shape1 = 4, flat = [1, 4 / 5, 1 / 5, 0, 0, 1 / 5, 4 / 5, 1 :: real]\<rparr>"
  let ?s0 = "\<lparr>self_n_clusters = 2, self_mu = 2, self_eps = 1 / 100,
        self_data = ?data, self_u = ?u,
        self_centers = \<lparr>shape0 = 2, shape1 = 1, flat = [3 / 7, 18 / 7 :: real]\<rparr>\<rparr>"
  let ?s1 = "\<lparr>self_n_clusters = 2, self_mu = 2, self_eps = 1 / 100,
        self_data = ?data,
        self_u = \<lparr>shape0 = 2, shape1 = 4,
           flat = [1296 / 1297, 14641 / 14897, 256 / 14897, 1 / 1297,
                   1 / 1297, 256 / 14897, 14641 / 14897, 1296 / 1297 :: real]\<rparr>,
        self_centers = \<lparr>shape0 = 2, shape1 = 1,
           flat = [60136265851334 / 122241385270651,
                   306587889960619 / 122241385270651 :: real]\<rparr>\<rparr>"
  have a: "primed (init 2 2 (1 / 100)) ?data ?u = Inr ?s0"
    by (simp add: primed_def init_def FCM.extend_def FCM_fit.fields_def fcm_eval)
  have p: "pass ?s0 = Inr ?s1" by (simp add: fcm_eval)
  have "\<exists>v. matrix_norm (self_u ?s0) (self_u ?s1) = Inr v \<and> \<not> v < 1 / 100"
    by (rule norm_not_below) (simp_all add: norm_eval)
  then obtain v where v: "matrix_norm (self_u ?s0) (self_u ?s1) = Inr v"
    and nv: "\<not> v < 1 / 100"
    by blast
  have e: "self_eps ?s0 = 1 / 100" by simp
  have "iteration ?s0 = Inr (?s1, v < 1 / 100)"
    by (simp only: iteration_pass p v bnd_Inr e)
  then have b: "iteration ?s0 = Inr (?s1, False)"
    using nv by simp
  have j0: "J ?s0 = Inr (172 / 175)" by (simp add: J_eval)
  have j1: "J ?s1 = Inr (44871471327979493379289162540 / 45634768368773084271991047931)"
    by (simp add: J_eval)
  have "(172 / 175 :: real) < 44871471327979493379289162540 / 45634768368773084271991047931"
    by simp
  then show ?thesis using a b j0 j1 by blast
qed

end
